theory Spec2Isabelle
  imports Complex_Main "HOL-Library.Char_ord" "HOL-Library.List_Lexorder"
    "HOL-Library.Product_Lexorder" "HOL-Library.Multiset" "HOL-Library.Log_Nat"
begin

section \<open>The passenger table\<close>

text \<open>
  \<^verbatim>\<open>apputil.py\<close> computes four descriptive tables from one passenger table loaded by
  \<^verbatim>\<open>_load_titanic\<close>. The loader is a download; every function below takes the loaded
  table as its argument \<open>df\<close>, a list of rows in file order.

  A row keeps the columns the code reads. A cell of a data frame may be missing (NaN), so
  every column is an \<open>option\<close>. Ages and fares are 64-bit floats; a finite float is a
  rational number, so they are rationals here, and where the code adds or divides
  numbers the rounding of the result is written out. Whole-number columns hold 64-bit
  integers. Strings are lists of characters, one \<open>char\<close> per code point below 256.
\<close>

record passenger =
  PassengerId :: "int option"
  Survived :: "int option"
  Pclass :: "int option"
  Name :: "string option"
  Sex :: "string option"
  Age :: "rat option"
  SibSp :: "int option"
  Parch :: "int option"
  Fare :: "rat option"

datatype error = KeyError | AttributeError

section \<open>Machine numbers\<close>

text \<open>
  The sum, difference or quotient of two 64-bit floats is the float nearest to the exact
  result, a tie going to the even significand: 53 bits of significand and no exponent
  below \<open>-1074\<close>. Results beyond the largest float are not modelled.
\<close>

definition pow2 :: "int \<Rightarrow> rat" where
  "pow2 e = (if 0 \<le> e then 2 ^ nat e else 1 / 2 ^ nat (- e))"

definition flog2 :: "rat \<Rightarrow> int" where
  "flog2 a =
     (case quotient_of a of
        (p, q) \<Rightarrow> let k = bitlen p - bitlen q in if pow2 k \<le> a then k else k - 1)"

definition round_half_even :: "rat \<Rightarrow> int" where
  "round_half_even q =
     (let n = \<lfloor>q\<rfloor>; r = q - of_int n
      in if r < 1 / 2 then n else if 1 / 2 < r then n + 1 else if even n then n else n + 1)"

definition float64_round :: "rat \<Rightarrow> rat" where
  "float64_round x =
     (if x = 0 then 0
      else let a = \<bar>x\<bar>; e = max (flog2 a - 52) (- 1074); m = round_half_even (a / pow2 e)
           in sgn x * of_int m * pow2 e)"

text \<open>An \<^verbatim>\<open>int64\<close> result wraps around.\<close>

definition int64 :: "int \<Rightarrow> int" where
  "int64 x = (x + 2 ^ 63) mod 2 ^ 64 - 2 ^ 63"

text \<open>
  A column is held as floats when a cell of it is missing in the loaded table, and a
  whole-number column without a missing cell as \<^verbatim>\<open>int64\<close>.
\<close>

definition has_missing :: "('r \<Rightarrow> 'a option) \<Rightarrow> 'r list \<Rightarrow> bool" where
  "has_missing col df = list_ex (\<lambda>r. col r = None) df"

text \<open>
  The sum of a group of floats adds the values one after the other and carries a
  compensation term along (Kahan summation); every operation rounds.
\<close>

definition kahan_step :: "rat \<Rightarrow> rat \<times> rat \<Rightarrow> rat \<times> rat" where
  "kahan_step v sc =
     (case sc of
        (s, c) \<Rightarrow>
          let y = float64_round (v - c); t = float64_round (s + y)
          in (t, float64_round (float64_round (t - s) - y)))"

definition float_sum :: "rat list \<Rightarrow> rat" where
  "float_sum xs = fst (fold kahan_step xs (0, 0))"

section \<open>Survival by class, sex and age group\<close>

text \<open>
  \<^verbatim>\<open>pd.cut(x, bins, labels, right=True, include_lowest=True)\<close>: the label of the first bin
  \<open>(lo, hi]\<close> that holds \<open>x\<close>, the lowest edge included; no label for a missing value or
  a value in no bin.
\<close>

fun cut_from :: "rat list \<Rightarrow> string list \<Rightarrow> rat \<Rightarrow> string option" where
  "cut_from (lo # hi # bs) (l # ls) x =
     (if lo < x \<and> x \<le> hi then Some l else cut_from (hi # bs) ls x)"
| "cut_from _ _ _ = None"

definition pd_cut :: "rat list \<Rightarrow> string list \<Rightarrow> rat option \<Rightarrow> string option" where
  "pd_cut bs ls v =
     (case v of
        None \<Rightarrow> None
      | Some x \<Rightarrow>
          (case (bs, ls) of
             (lo # _ # _, l # _) \<Rightarrow> if x = lo then Some l else cut_from bs ls x
           | _ \<Rightarrow> None))"

definition bins :: "rat list" where
  "bins = [0, 12, 19, 59, 120]"

definition labels :: "string list" where
  "labels = [''Child'', ''Teen'', ''Adult'', ''Senior'']"

definition age_group :: "passenger \<Rightarrow> string option" where
  "age_group r = pd_cut bins labels (Age r)"

text \<open>
  \<^verbatim>\<open>sorted(column.dropna().unique())\<close>: the values present, each once, ascending
  (strings by code point).
\<close>

definition sorted_unique :: "(passenger \<Rightarrow> 'a option) \<Rightarrow> passenger list \<Rightarrow> ('a::linorder) list" where
  "sorted_unique col df = sort (remdups (List.map_filter col df))"

definition pclasses :: "passenger list \<Rightarrow> int list" where
  "pclasses df = sorted_unique Pclass df"

definition sexes :: "passenger list \<Rightarrow> string list" where
  "sexes df = sorted_unique Sex df"

type_synonym demo_key = "int \<times> string \<times> string"

text \<open>\<^verbatim>\<open>pd.MultiIndex.from_product([pclasses, sexes, age_cats])\<close>.\<close>

definition full_index :: "passenger list \<Rightarrow> demo_key list" where
  "full_index df = List.product (pclasses df) (List.product (sexes df) labels)"

text \<open>
  The grouping step. \<^verbatim>\<open>dropna(subset=["age_group"])\<close> keeps the rows that have an age
  group. \<^verbatim>\<open>groupby\<close> leaves out a row with a missing key; with \<^verbatim>\<open>observed=False\<close> its
  index holds every pair of class and sex that occurs in a kept row, in ascending order,
  each with all four categories of the age group. \<^verbatim>\<open>count\<close> counts the non-missing
  values of \<^verbatim>\<open>Survived\<close> in a group and \<^verbatim>\<open>sum\<close> adds them, in \<^verbatim>\<open>int64\<close> when the
  column is whole numbers (\<open>as_float\<close> false) and in floats when it is held as floats;
  both are 0 for a group with no row.
\<close>

definition kept :: "passenger list \<Rightarrow> passenger list" where
  "kept df = filter (\<lambda>r. age_group r \<noteq> None) df"

definition in_group :: "demo_key \<Rightarrow> passenger \<Rightarrow> bool" where
  "in_group k r =
     (case k of (c, s, g) \<Rightarrow> Pclass r = Some c \<and> Sex r = Some s \<and> age_group r = Some g)"

definition class_sex :: "passenger \<Rightarrow> (int \<times> string) option" where
  "class_sex r =
     (case Pclass r of
        None \<Rightarrow> None
      | Some c \<Rightarrow> (case Sex r of None \<Rightarrow> None | Some s \<Rightarrow> Some (c, s)))"

definition grouped_index :: "passenger list \<Rightarrow> demo_key list" where
  "grouped_index rows =
     concat (map (\<lambda>cs. map (\<lambda>g. (fst cs, snd cs, g)) labels)
       (sort (remdups (List.map_filter class_sex rows))))"

definition agg_count :: "(passenger \<Rightarrow> 'a option) \<Rightarrow> passenger list \<Rightarrow> int" where
  "agg_count col rows = int (length (List.map_filter col rows))"

definition agg_sum :: "bool \<Rightarrow> (passenger \<Rightarrow> int option) \<Rightarrow> passenger list \<Rightarrow> int" where
  "agg_sum as_float col rows =
     (let xs = List.map_filter col rows
      in if as_float then \<lfloor>float_sum (map (\<lambda>x. float64_round (of_int x)) xs)\<rfloor>
         else int64 (sum_list xs))"

definition grouped :: "passenger list \<Rightarrow> (demo_key \<times> int \<times> int) list" where
  "grouped df =
     map (\<lambda>k. (k, agg_count Survived (filter (in_group k) (kept df)),
                   agg_sum (has_missing Survived df) Survived (filter (in_group k) (kept df))))
       (grouped_index (kept df))"

text \<open>\<^verbatim>\<open>.reindex(full_index, fill_value=0)\<close>: one row per key of the new index, in its order;
  a key the grouped table lacks gets 0 in both columns.\<close>

definition reindex :: "demo_key list \<Rightarrow> (demo_key \<times> int \<times> int) list \<Rightarrow> (demo_key \<times> int \<times> int) list" where
  "reindex idx tbl = map (\<lambda>k. (k, case map_of tbl k of Some v \<Rightarrow> v | None \<Rightarrow> (0, 0))) idx"

record demo_cell =
  cell_Pclass :: int
  cell_Sex :: string
  cell_age_group :: string
  n_passengers :: int
  n_survivors :: int
  survival_rate :: rat

definition cell_key :: "demo_cell \<Rightarrow> demo_key" where
  "cell_key c = (cell_Pclass c, cell_Sex c, cell_age_group c)"

text \<open>
  The \<^verbatim>\<open>lambda\<close> of line 60, applied to one row of the reindexed table. The quotient
  of two numbers is the float nearest to it.
\<close>

definition with_rate :: "demo_key \<times> int \<times> int \<Rightarrow> demo_cell" where
  "with_rate row =
     (case row of ((c, s, g), n, k) \<Rightarrow>
        \<lparr>cell_Pclass = c, cell_Sex = s, cell_age_group = g, n_passengers = n, n_survivors = k,
         survival_rate = (if n = 0 then 0 else float64_round (of_int k / of_int n))\<rparr>)"

text \<open>
  The position of a label among the categories, which is the order of a categorical
  column.
\<close>

definition label_rank :: "string \<Rightarrow> nat" where
  "label_rank g = length (takeWhile (\<lambda>l. l \<noteq> g) labels)"

definition cat_key :: "demo_cell \<Rightarrow> int \<times> string \<times> nat" where
  "cat_key c = (cell_Pclass c, cell_Sex c, label_rank (cell_age_group c))"

text \<open>
  \<^verbatim>\<open>survival_demographics\<close>. When no class or no sex is present the full index is
  empty, \<^verbatim>\<open>apply\<close> gives an empty column and the function returns the empty table.
  When the grouped index already equals the full index, \<^verbatim>\<open>reindex\<close> changes nothing,
  the age group stays categorical and \<^verbatim>\<open>sort_values\<close> orders it as the categories are
  listed; otherwise the rows take the full index, whose age-group level holds plain
  strings, and the sort compares the strings.
\<close>

definition survival_demographics :: "passenger list \<Rightarrow> demo_cell list" where
  "survival_demographics df =
     (let tbl = map with_rate (reindex (full_index df) (grouped df))
      in if grouped_index (kept df) = full_index df then sort_key cat_key tbl
         else sort_key cell_key tbl)"

text \<open>The values present in a column, as a set.\<close>

definition observed :: "(passenger \<Rightarrow> 'a option) \<Rightarrow> passenger list \<Rightarrow> 'a set" where
  "observed col df = set (List.map_filter col df)"

text \<open>
  The specification's reading of the age groups, with the intervals as it writes them:
  Child [0,12], Teen [13,19], Adult [20,59], Senior [60,120].
\<close>

definition spec_age_group :: "rat option \<Rightarrow> string option" where
  "spec_age_group v =
     (case v of
        None \<Rightarrow> None
      | Some x \<Rightarrow>
          if 0 \<le> x \<and> x \<le> 12 then Some ''Child''
          else if 13 \<le> x \<and> x \<le> 19 then Some ''Teen''
          else if 20 \<le> x \<and> x \<le> 59 then Some ''Adult''
          else if 60 \<le> x \<and> x \<le> 120 then Some ''Senior''
          else None)"

text \<open>A survived flag that is present is 0 or 1.\<close>

definition binary :: "int option \<Rightarrow> bool" where
  "binary v = (v = None \<or> v = Some 0 \<or> v = Some 1)"

section \<open>Fares by class and family size\<close>

text \<open>\<^verbatim>\<open>column.fillna(0)\<close>, for one cell.\<close>

definition fillna0 :: "int option \<Rightarrow> int" where
  "fillna0 v = (case v of None \<Rightarrow> 0 | Some x \<Rightarrow> x)"

text \<open>
  \<^verbatim>\<open>df["SibSp"].fillna(0) + df["Parch"].fillna(0) + 1\<close> is \<^verbatim>\<open>int64\<close> arithmetic, which
  wraps around, when neither column has a missing cell, and float arithmetic, which
  rounds, when one of them has.
\<close>

definition family_size :: "passenger list \<Rightarrow> passenger \<Rightarrow> int" where
  "family_size df r =
     (let s = fillna0 (SibSp r); p = fillna0 (Parch r)
      in if has_missing SibSp df \<or> has_missing Parch df
         then \<lfloor>float64_round
                (float64_round (float64_round (of_int s) + float64_round (of_int p)) + 1)\<rfloor>
         else int64 (int64 (s + p) + 1))"

text \<open>
  \<^verbatim>\<open>mean\<close>, \<^verbatim>\<open>min\<close> and \<^verbatim>\<open>max\<close> of a group skip the missing values and are missing
  themselves when no value is left. The minimum and the maximum are values of the group.
  The mean is the library's float mean of the values that are present, a rounded sum
  divided by their number; it is the parameter \<open>fmean\<close> of the model, and what is proved
  below holds for every such function.
\<close>

definition agg_mean :: "(rat list \<Rightarrow> rat) \<Rightarrow> (passenger \<Rightarrow> rat option) \<Rightarrow> passenger list \<Rightarrow> rat option" where
  "agg_mean fmean col rows =
     (case List.map_filter col rows of [] \<Rightarrow> None | x # xs \<Rightarrow> Some (fmean (x # xs)))"

definition agg_min :: "(passenger \<Rightarrow> rat option) \<Rightarrow> passenger list \<Rightarrow> rat option" where
  "agg_min col rows =
     (case List.map_filter col rows of [] \<Rightarrow> None | x # xs \<Rightarrow> Some (fold min xs x))"

definition agg_max :: "(passenger \<Rightarrow> rat option) \<Rightarrow> passenger list \<Rightarrow> rat option" where
  "agg_max col rows =
     (case List.map_filter col rows of [] \<Rightarrow> None | x # xs \<Rightarrow> Some (fold max xs x))"

record family_cell =
  fam_Pclass :: int
  fam_family_size :: int
  fam_n_passengers :: int
  avg_fare :: "rat option"
  min_fare :: "rat option"
  max_fare :: "rat option"

definition fam_key :: "family_cell \<Rightarrow> int \<times> int" where
  "fam_key c = (fam_Pclass c, fam_family_size c)"

text \<open>
  \<^verbatim>\<open>groupby(["Pclass", "family_size"])\<close>: one group per pair that occurs in a row with a
  class, in ascending order of the pair.
\<close>

definition family_member :: "passenger list \<Rightarrow> int \<times> int \<Rightarrow> passenger \<Rightarrow> bool" where
  "family_member df k r = (Pclass r = Some (fst k) \<and> family_size df r = snd k)"

definition family_index :: "passenger list \<Rightarrow> (int \<times> int) list" where
  "family_index df =
     sort (remdups
       (List.map_filter (\<lambda>r. map_option (\<lambda>c. (c, family_size df r)) (Pclass r)) df))"

definition family_agg :: "(rat list \<Rightarrow> rat) \<Rightarrow> passenger list \<Rightarrow> int \<times> int \<Rightarrow> family_cell" where
  "family_agg fmean df k =
     (let rows = filter (family_member df k) df
      in \<lparr>fam_Pclass = fst k, fam_family_size = snd k,
          fam_n_passengers = agg_count PassengerId rows,
          avg_fare = agg_mean fmean Fare rows, min_fare = agg_min Fare rows,
          max_fare = agg_max Fare rows\<rparr>)"

definition family_groups :: "(rat list \<Rightarrow> rat) \<Rightarrow> passenger list \<Rightarrow> family_cell list" where
  "family_groups fmean df = sort_key fam_key (map (family_agg fmean df) (family_index df))"

text \<open>The mean without rounding, which the float mean equals on the sample tables.\<close>

definition exact_mean :: "rat list \<Rightarrow> rat" where
  "exact_mean xs = sum_list xs / of_nat (length xs)"

text \<open>
  A sibling or parent count that is present is not negative and is below \<open>2 ^ 52\<close>,
  where both kinds of column arithmetic are exact.
\<close>

definition count_ok :: "int option \<Rightarrow> bool" where
  "count_ok v = (case v of None \<Rightarrow> True | Some x \<Rightarrow> 0 \<le> x \<and> x < 2 ^ 52)"

section \<open>Last names\<close>

text \<open>
  \<^verbatim>\<open>s.split(sep, 1)\<close>: the text before the first separator and the text after it, or the
  whole string alone when it has no separator. \<^verbatim>\<open>.str[0]\<close> takes the first element of the
  list.
\<close>

definition str_split1 :: "char \<Rightarrow> string \<Rightarrow> string list" where
  "str_split1 sep s =
     (if sep \<in> set s
      then [takeWhile (\<lambda>c. c \<noteq> sep) s, tl (dropWhile (\<lambda>c. c \<noteq> sep) s)]
      else [s])"

definition str_get0 :: "string list \<Rightarrow> string option" where
  "str_get0 parts = (case parts of [] \<Rightarrow> None | x # _ \<Rightarrow> Some x)"

text \<open>
  \<^verbatim>\<open>s.strip()\<close> removes the whitespace at both ends. Below code point 256 Python's
  whitespace is 9 to 13, 28 to 32, 133 and 160.
\<close>

definition isspace :: "char \<Rightarrow> bool" where
  "isspace c =
     (let n = (of_char c :: nat)
      in (9 \<le> n \<and> n \<le> 13) \<or> (28 \<le> n \<and> n \<le> 32) \<or> n = 133 \<or> n = 160)"

definition str_strip :: "string \<Rightarrow> string" where
  "str_strip s = rev (dropWhile isspace (rev (dropWhile isspace s)))"

text \<open>The string methods leave a missing name missing.\<close>

definition last_name :: "string option \<Rightarrow> string option" where
  "last_name v =
     (case v of
        None \<Rightarrow> None
      | Some s \<Rightarrow> map_option str_strip (str_get0 (str_split1 CHR '','' s)))"

text \<open>
  \<^verbatim>\<open>value_counts()\<close> counts each value that is present and orders the counts descending;
  \<^verbatim>\<open>sort_values(ascending=False)\<close> orders them again. The order among equal counts is
  not fixed by the library; here equal counts stay in order of first appearance.
\<close>

definition uniques :: "'a list \<Rightarrow> 'a list" where
  "uniques xs = rev (remdups (rev xs))"

definition sort_values_desc :: "('a \<times> int) list \<Rightarrow> ('a \<times> int) list" where
  "sort_values_desc t = sort_key (\<lambda>p. - snd p) t"

definition value_counts :: "'a option list \<Rightarrow> ('a \<times> int) list" where
  "value_counts col =
     (let xs = List.map_filter id col
      in sort_values_desc (map (\<lambda>v. (v, int (count_list xs v))) (uniques xs)))"

definition last_name_counts :: "passenger list \<Rightarrow> (string \<times> int) list" where
  "last_name_counts df = sort_values_desc (value_counts (map (\<lambda>r. last_name (Name r)) df))"

text \<open>
  \<^verbatim>\<open>last_names\<close>. A name column that has rows and no string in it is a column of floats,
  and \<^verbatim>\<open>.str\<close> on it raises \<^verbatim>\<open>AttributeError\<close>.
\<close>

definition last_names :: "passenger list \<Rightarrow> error + (string \<times> int) list" where
  "last_names df =
     (if df \<noteq> [] \<and> list_all (\<lambda>r. Name r = None) df then Inl AttributeError
      else Inr (last_name_counts df))"

text \<open>The last names of the rows that have a name, in row order.\<close>

definition names_present :: "passenger list \<Rightarrow> string list" where
  "names_present df = List.map_filter id (map (\<lambda>r. last_name (Name r)) df)"

section \<open>Age division within a class\<close>

text \<open>
  \<^verbatim>\<open>median()\<close> of the values present: the middle one of the sorted values, the float
  mean of the two middle ones (their rounded sum, halved) when their number is even,
  missing when there is none.
\<close>

definition median :: "rat list \<Rightarrow> rat option" where
  "median xs =
     (let s = sort xs; n = length s
      in if n = 0 then None
         else if odd n then Some (s ! (n div 2))
         else Some (float64_round (float64_round (s ! (n div 2 - 1) + s ! (n div 2)) / 2)))"

text \<open>
  The median as the specification has it: the exact average of the two middle values for
  an even count.
\<close>

definition spec_median :: "rat list \<Rightarrow> rat option" where
  "spec_median xs =
     (let s = sort xs; n = length s
      in if n = 0 then None
         else if odd n then Some (s ! (n div 2))
         else Some ((s ! (n div 2 - 1) + s ! (n div 2)) / 2))"

definition class_ages :: "passenger list \<Rightarrow> int \<Rightarrow> rat list" where
  "class_ages df c = List.map_filter Age (filter (\<lambda>r. Pclass r = Some c) df)"

text \<open>\<^verbatim>\<open>df.groupby("Pclass")["Age"].median()\<close>: one entry per class present.\<close>

definition class_medians :: "passenger list \<Rightarrow> (int \<times> rat option) list" where
  "class_medians df = map (\<lambda>c. (c, median (class_ages df c))) (sorted_unique Pclass df)"

text \<open>
  The \<^verbatim>\<open>lambda\<close> of line 155. \<^verbatim>\<open>class_medians.loc[k]\<close> raises \<^verbatim>\<open>KeyError\<close> for a key
  that is not in the index, and a missing class is never in it. A comparison with a
  missing median is false.
\<close>

definition older_passenger :: "(int \<times> rat option) list \<Rightarrow> passenger \<Rightarrow> error + bool" where
  "older_passenger cm r =
     (case Age r of
        None \<Rightarrow> Inr False
      | Some a \<Rightarrow>
          (case Pclass r of
             None \<Rightarrow> Inl KeyError
           | Some c \<Rightarrow>
               (case map_of cm c of
                  None \<Rightarrow> Inl KeyError
                | Some None \<Rightarrow> Inr False
                | Some (Some m) \<Rightarrow> Inr (m < a))))"

text \<open>\<^verbatim>\<open>df.apply(f, axis=1)\<close> calls \<open>f\<close> on the rows in order; the first exception ends it.\<close>

fun apply_rows :: "('a \<Rightarrow> error + 'b) \<Rightarrow> 'a list \<Rightarrow> error + 'b list" where
  "apply_rows f [] = Inr []"
| "apply_rows f (r # rs) =
     (case f r of
        Inl e \<Rightarrow> Inl e
      | Inr b \<Rightarrow> (case apply_rows f rs of Inl e \<Rightarrow> Inl e | Inr bs \<Rightarrow> Inr (b # bs)))"

text \<open>
  \<^verbatim>\<open>determine_age_division\<close> returns the table with the new column, here each row paired
  with its flag; a table with no rows comes back with no rows.
\<close>

definition determine_age_division :: "passenger list \<Rightarrow> error + (passenger \<times> bool) list" where
  "determine_age_division df =
     (case apply_rows (older_passenger (class_medians df)) df of
        Inl e \<Rightarrow> Inl e
      | Inr flags \<Rightarrow> Inr (zip df flags))"

record division_cell =
  div_Pclass :: int
  div_older_passenger :: bool
  div_n_passengers :: int
  div_n_survivors :: int
  div_survival_rate :: "rat option"

text \<open>
  The table built in \<^verbatim>\<open>visualize_age_division\<close> (lines 162 to 167) before it is drawn:
  one group per pair of class and flag that occurs in a row with a class, and the rate
  \<^verbatim>\<open>n_survivors / n_passengers.replace(0, pd.NA)\<close>, missing where the count is 0 and
  elsewhere the float quotient of the two columns.
\<close>

definition division_member :: "int \<times> bool \<Rightarrow> passenger \<times> bool \<Rightarrow> bool" where
  "division_member k p = (Pclass (fst p) = Some (fst k) \<and> snd p = snd k)"

definition division_index :: "(passenger \<times> bool) list \<Rightarrow> (int \<times> bool) list" where
  "division_index t =
     sort (remdups (List.map_filter (\<lambda>p. map_option (\<lambda>c. (c, snd p)) (Pclass (fst p))) t))"

definition replace0 :: "int \<Rightarrow> int option" where
  "replace0 n = (if n = 0 then None else Some n)"

definition division_agg :: "(passenger \<times> bool) list \<Rightarrow> int \<times> bool \<Rightarrow> division_cell" where
  "division_agg t k =
     (let rows = map fst (filter (division_member k) t);
          n = agg_count PassengerId rows;
          s = agg_sum (has_missing Survived (map fst t)) Survived rows
      in \<lparr>div_Pclass = fst k, div_older_passenger = snd k, div_n_passengers = n,
          div_n_survivors = s,
          div_survival_rate =
            map_option
              (\<lambda>d. float64_round (float64_round (of_int s) / float64_round (of_int d)))
              (replace0 n)\<rparr>)"

definition visualize_age_division_grouped :: "passenger list \<Rightarrow> error + division_cell list" where
  "visualize_age_division_grouped df =
     (case determine_age_division df of
        Inl e \<Rightarrow> Inl e
      | Inr t \<Rightarrow> Inr (map (division_agg t) (division_index t)))"

section \<open>Sample tables\<close>

definition sample_row :: "int \<Rightarrow> int \<Rightarrow> int \<Rightarrow> string \<Rightarrow> string \<Rightarrow> rat option \<Rightarrow> rat option \<Rightarrow> passenger" where
  "sample_row i s c n x a f =
     \<lparr>PassengerId = Some i, Survived = Some s, Pclass = Some c, Name = Some n, Sex = Some x,
      Age = a, SibSp = Some 0, Parch = Some 0, Fare = f\<rparr>"

definition demo_rows :: "passenger list" where
  "demo_rows =
     [sample_row 1 1 3 ''Smith, John'' ''male'' (Some (25 / 2)) (Some 8),
      sample_row 2 0 3 ''Doe, Jack'' ''male'' (Some 19) None,
      sample_row 3 1 3 ''Roe, Tom'' ''male'' None (Some 7)]"

definition demo_table :: "demo_cell list" where
  "demo_table =
     [\<lparr>cell_Pclass = 3, cell_Sex = ''male'', cell_age_group = ''Child'',
        n_passengers = 0, n_survivors = 0, survival_rate = 0\<rparr>,
      \<lparr>cell_Pclass = 3, cell_Sex = ''male'', cell_age_group = ''Teen'',
        n_passengers = 2, n_survivors = 1, survival_rate = 1 / 2\<rparr>,
      \<lparr>cell_Pclass = 3, cell_Sex = ''male'', cell_age_group = ''Adult'',
        n_passengers = 0, n_survivors = 0, survival_rate = 0\<rparr>,
      \<lparr>cell_Pclass = 3, cell_Sex = ''male'', cell_age_group = ''Senior'',
        n_passengers = 0, n_survivors = 0, survival_rate = 0\<rparr>]"

definition cross_rows :: "passenger list" where
  "cross_rows =
     [sample_row 1 1 1 ''Allen, Ann'' ''female'' (Some 30) (Some 50),
      sample_row 2 0 3 ''Bell, Bob'' ''male'' (Some 5) (Some 8),
      sample_row 3 1 2 ''Cole, Cy'' ''male'' None (Some 13)]"

definition cross_filled :: demo_cell where
  "cross_filled =
     \<lparr>cell_Pclass = 2, cell_Sex = ''male'', cell_age_group = ''Child'',
      n_passengers = 0, n_survivors = 0, survival_rate = 0\<rparr>"

definition cross_unseen :: demo_cell where
  "cross_unseen =
     \<lparr>cell_Pclass = 1, cell_Sex = ''male'', cell_age_group = ''Adult'',
      n_passengers = 0, n_survivors = 0, survival_rate = 0\<rparr>"

definition nosex_rows :: "passenger list" where
  "nosex_rows =
     [\<lparr>PassengerId = Some 1, Survived = Some 1, Pclass = Some 1, Name = Some ''Lane, Lee'',
       Sex = None, Age = Some 30, SibSp = Some 0, Parch = Some 0, Fare = Some 9\<rparr>]"

definition third_rows :: "passenger list" where
  "third_rows =
     [sample_row 1 1 2 ''Hart, Ada'' ''female'' (Some 30) (Some 13),
      sample_row 2 0 2 ''Ives, Bea'' ''female'' (Some 31) (Some 13),
      sample_row 3 0 2 ''Jung, Cat'' ''female'' (Some 32) (Some 26)]"

definition flag_rows :: "passenger list" where
  "flag_rows = [sample_row 1 2 1 ''Dow, Dan'' ''male'' (Some 30) (Some 9)]"

definition mixed_rows :: "passenger list" where
  "mixed_rows =
     [\<lparr>PassengerId = Some 1, Survived = Some 1, Pclass = Some 1, Name = Some ''Smith, Mr. John'',
       Sex = Some ''male'', Age = Some 30, SibSp = Some 1, Parch = None, Fare = None\<rparr>,
      \<lparr>PassengerId = Some 2, Survived = Some 0, Pclass = Some 1,
       Name = Some ''  Smith , Mrs. Ann'', Sex = Some ''female'', Age = Some 24, SibSp = Some 1,
       Parch = Some 0, Fare = None\<rparr>,
      \<lparr>PassengerId = None, Survived = Some 1, Pclass = Some 3, Name = None,
       Sex = Some ''male'', Age = None, SibSp = None, Parch = None, Fare = Some (29 / 4)\<rparr>,
      \<lparr>PassengerId = Some 4, Survived = Some 1, Pclass = Some 1, Name = Some ''Cher'',
       Sex = Some ''female'', Age = Some 27, SibSp = None, Parch = Some 0, Fare = Some 80\<rparr>,
      \<lparr>PassengerId = Some 5, Survived = Some 0, Pclass = Some 1, Name = Some ''Cher, Ann'',
       Sex = Some ''female'', Age = None, SibSp = Some 0, Parch = Some 0, Fare = None\<rparr>,
      \<lparr>PassengerId = Some 6, Survived = Some 0, Pclass = Some 1, Name = Some ''Moss, Kim'',
       Sex = Some ''male'', Age = Some 41, SibSp = Some 0, Parch = Some 0, Fare = Some 20\<rparr>]"

definition neg_rows :: "passenger list" where
  "neg_rows =
     [\<lparr>PassengerId = Some 1, Survived = Some 1, Pclass = Some 1, Name = Some ''Bond, Jo'',
       Sex = Some ''male'', Age = Some 30, SibSp = Some (- 1), Parch = Some 0, Fare = Some 9\<rparr>]"

definition wrap_rows :: "passenger list" where
  "wrap_rows =
     [\<lparr>PassengerId = Some 1, Survived = Some 1, Pclass = Some 1, Name = Some ''Cook, Jo'',
       Sex = Some ''male'', Age = Some 30, SibSp = Some (2 ^ 63 - 1), Parch = Some 0,
       Fare = Some 9\<rparr>]"

definition division_rows :: "passenger list" where
  "division_rows =
     [sample_row 1 0 1 ''Ames, Al'' ''male'' (Some 22) (Some 30),
      sample_row 2 1 3 ''Boyd, Bo'' ''male'' (Some 20) (Some 7),
      sample_row 3 0 1 ''Cruz, Cy'' ''female'' (Some 38) (Some 71),
      sample_row 4 1 3 ''Dale, Di'' ''female'' (Some 40) (Some 8),
      sample_row 5 1 1 ''East, Ed'' ''male'' (Some 50) (Some 52),
      sample_row 6 1 3 ''Ford, Fay'' ''female'' (Some 26) (Some 9),
      sample_row 7 0 3 ''Gray, Gus'' ''male'' (Some 35) (Some 8),
      \<lparr>PassengerId = None, Survived = Some 1, Pclass = Some 2, Name = Some ''Hale, Hal'',
       Sex = Some ''male'', Age = None, SibSp = Some 0, Parch = Some 0, Fare = Some 13\<rparr>]"

definition adjacent_rows :: "passenger list" where
  "adjacent_rows =
     [sample_row 1 1 1 ''Ames, Al'' ''male'' (Some (1 + 1 / 2 ^ 52)) (Some 30),
      sample_row 2 1 1 ''Boyd, Bo'' ''male'' (Some (1 + 1 / 2 ^ 51)) (Some 30)]"

definition mixed_families :: "family_cell list" where
  "mixed_families =
     [\<lparr>fam_Pclass = 1, fam_family_size = 1, fam_n_passengers = 3,
        avg_fare = Some 50, min_fare = Some 20, max_fare = Some 80\<rparr>,
      \<lparr>fam_Pclass = 1, fam_family_size = 2, fam_n_passengers = 2,
        avg_fare = None, min_fare = None, max_fare = None\<rparr>,
      \<lparr>fam_Pclass = 3, fam_family_size = 1, fam_n_passengers = 0,
        avg_fare = Some (29 / 4), min_fare = Some (29 / 4), max_fare = Some (29 / 4)\<rparr>]"

definition seven_rows :: "passenger list" where
  "seven_rows =
     [sample_row 1 1 1 ''Kent, Al'' ''male'' (Some 10) (Some 30),
      sample_row 2 1 1 ''Lowe, Bo'' ''male'' (Some 20) (Some 30),
      sample_row 3 1 1 ''Mann, Cy'' ''male'' (Some 30) (Some 30),
      sample_row 4 0 1 ''Nash, Di'' ''female'' (Some 40) (Some 30),
      sample_row 5 1 1 ''Owen, Ed'' ''male'' (Some 50) (Some 30),
      sample_row 6 0 1 ''Pace, Fay'' ''female'' (Some 60) (Some 30),
      sample_row 7 0 1 ''Quin, Gus'' ''male'' (Some 70) (Some 30)]"

definition seven_summary :: "division_cell list" where
  "seven_summary =
     [\<lparr>div_Pclass = 1, div_older_passenger = False, div_n_passengers = 4,
        div_n_survivors = 3, div_survival_rate = Some (3 / 4)\<rparr>,
      \<lparr>div_Pclass = 1, div_older_passenger = True, div_n_passengers = 3,
        div_n_survivors = 1,
        div_survival_rate = Some (6004799503160661 / 18014398509481984)\<rparr>]"

definition division_table :: "(passenger \<times> bool) list" where
  "division_table =
     zip division_rows [False, False, False, True, True, False, True, False]"

definition division_summary :: "division_cell list" where
  "division_summary =
     [\<lparr>div_Pclass = 1, div_older_passenger = False, div_n_passengers = 2,
        div_n_survivors = 0, div_survival_rate = Some 0\<rparr>,
      \<lparr>div_Pclass = 1, div_older_passenger = True, div_n_passengers = 1,
        div_n_survivors = 1, div_survival_rate = Some 1\<rparr>,
      \<lparr>div_Pclass = 2, div_older_passenger = False, div_n_passengers = 0,
        div_n_survivors = 1, div_survival_rate = None\<rparr>,
      \<lparr>div_Pclass = 3, div_older_passenger = False, div_n_passengers = 2,
        div_n_survivors = 2, div_survival_rate = Some 1\<rparr>,
      \<lparr>div_Pclass = 3, div_older_passenger = True, div_n_passengers = 2,
        div_n_survivors = 1, div_survival_rate = Some (1 / 2)\<rparr>]"

definition mixed_names :: "(string \<times> int) list" where
  "mixed_names = [(''Smith'', 2), (''Cher'', 2), (''Moss'', 1)]"

section \<open>Properties of the machine numbers\<close>

lemma int64_id:
  assumes "- (2 ^ 63) \<le> x" and "x < 2 ^ 63"
  shows "int64 x = x"
  using assms by (simp add: int64_def)

lemma pow2_nonpos: "e \<le> 0 \<Longrightarrow> pow2 e = 1 / 2 ^ nat (- e)"
  by (cases "e = 0") (simp_all add: pow2_def)

lemma round_half_even_of_int: "round_half_even (of_int j) = j"
  by (simp add: round_half_even_def)

lemma flog2_of_int:
  assumes "0 < n"
  shows "flog2 (of_int n) = bitlen n - 1"
proof -
  have b: "1 \<le> bitlen n"
    using assms bitlen_eq_zero_iff [of n] bitlen_nonneg [of n] by linarith
  have "(2::int) ^ nat (bitlen n - 1) \<le> n"
    using bitlen_bounds [OF assms] ..
  then have "(of_int ((2::int) ^ nat (bitlen n - 1)) :: rat) \<le> of_int n"
    by (simp only: of_int_le_iff)
  then have "pow2 (bitlen n - 1) \<le> of_int n"
    using b by (simp add: pow2_def)
  moreover have "bitlen 1 = 1"
    by (simp add: bitlen_alt_def)
  ultimately show ?thesis
    by (simp add: flog2_def quotient_of_int)
qed

lemma float64_round_nat:
  assumes "0 < n" and "n < 2 ^ 53"
  shows "float64_round (of_int n) = of_int n"
proof -
  define k where "k = bitlen n - 1"
  have k0: "0 \<le> k"
    using assms(1) bitlen_eq_zero_iff [of n] bitlen_nonneg [of n] by (simp add: k_def)
  have "bitlen n \<le> 53"
    using assms(2) by (simp add: bitlen_le_iff_power)
  then have k52: "k \<le> 52"
    by (simp add: k_def)
  define t where "t = nat (52 - k)"
  have e: "max (flog2 (of_int n) - 52) (- 1074) = k - 52"
    using k0 by (simp add: flog2_of_int [OF assms(1)] k_def)
  have p: "pow2 (k - 52) = 1 / 2 ^ t"
    using k52 pow2_nonpos [of "k - 52"] by (simp add: t_def)
  have "(of_int n :: rat) / pow2 (k - 52) = of_int (n * 2 ^ t)"
    by (simp add: p)
  then have m: "round_half_even ((of_int n :: rat) / pow2 (k - 52)) = n * 2 ^ t"
    by (simp only: round_half_even_of_int)
  have "float64_round (of_int n) = of_int (n * 2 ^ t) * pow2 (k - 52)"
    using assms(1) by (simp add: float64_round_def Let_def e m)
  also have "\<dots> = of_int n"
    by (simp add: p)
  finally show ?thesis .
qed

lemma float64_round_int:
  assumes "\<bar>n\<bar> < 2 ^ 53"
  shows "float64_round (of_int n) = of_int n"
proof (cases "n = 0")
  case True
  then show ?thesis by (simp add: float64_round_def)
next
  case False
  show ?thesis
  proof (cases "0 < n")
    case True
    with assms show ?thesis
      by (simp add: float64_round_nat)
  next
    case neg: False
    with False have n: "0 < - n" "- n < 2 ^ 53"
      using assms by simp_all
    have "float64_round (of_int n) = - float64_round (of_int (- n))"
      using False neg by (simp add: float64_round_def Let_def)
    also have "float64_round (of_int (- n)) = of_int (- n)"
      by (rule float64_round_nat [OF n])
    finally show ?thesis
      by simp
  qed
qed

lemma round_half_even_bounds: "\<lfloor>q\<rfloor> \<le> round_half_even q \<and> round_half_even q \<le> \<lfloor>q\<rfloor> + 1"
  by (simp add: round_half_even_def Let_def)

lemma round_half_even_le:
  assumes "q \<le> of_int N"
  shows "round_half_even q \<le> N"
proof (cases "\<lfloor>q\<rfloor> < N")
  case True
  with round_half_even_bounds [of q] show ?thesis by linarith
next
  case False
  have "\<lfloor>q\<rfloor> \<le> N"
    using assms by (simp add: floor_le_iff) 
  with False have f: "\<lfloor>q\<rfloor> = N" by simp
  then have "of_int N \<le> q"
    using of_int_floor_le [of q] by simp
  with assms have "q = of_int N" by simp
  then show ?thesis
    by (simp add: round_half_even_of_int)
qed

lemma round_half_even_nonneg:
  assumes "0 \<le> q"
  shows "0 \<le> round_half_even q"
proof -
  have "0 \<le> \<lfloor>q\<rfloor>" using assms by simp
  with round_half_even_bounds [of q] show ?thesis by linarith
qed

lemma pow2_pos: "0 < pow2 e"
  by (simp add: pow2_def)

lemma float64_round_unit:
  assumes "0 \<le> x" and "x \<le> 1"
  shows "0 \<le> float64_round x \<and> float64_round x \<le> 1"
proof (cases "x = 0")
  case True
  then show ?thesis by (simp add: float64_round_def)
next
  case False
  with assms have x: "0 < x" by simp
  define e where "e = max (flog2 \<bar>x\<bar> - 52) (- 1074)"
  define m where "m = round_half_even (\<bar>x\<bar> / pow2 e)"
  have fr: "float64_round x = of_int m * pow2 e"
    using x by (simp add: float64_round_def Let_def e_def m_def)
  have q0: "0 \<le> \<bar>x\<bar> / pow2 e"
    using pow2_pos [of e] by simp
  then have m0: "0 \<le> m"
    unfolding m_def by (rule round_half_even_nonneg)
  have lo: "0 \<le> float64_round x"
    using m0 pow2_pos [of e] by (simp add: fr)
  have hi: "float64_round x \<le> 1"
  proof (cases "e \<le> 0")
    case True
    define k where "k = nat (- e)"
    have p: "pow2 e = 1 / 2 ^ k"
      using True by (simp add: pow2_nonpos k_def)
    have "\<bar>x\<bar> / pow2 e = x * 2 ^ k"
      using x by (simp add: p)
    also have "\<dots> \<le> 1 * 2 ^ k"
      using assms(2) by (intro mult_right_mono) simp_all
    finally have "\<bar>x\<bar> / pow2 e \<le> of_int (2 ^ k)"
      by simp
    then have "m \<le> 2 ^ k"
      unfolding m_def by (rule round_half_even_le)
    then have "(of_int m :: rat) \<le> of_int (2 ^ k)"
      by (simp only: of_int_le_iff)
    then have "(of_int m :: rat) \<le> 2 ^ k"
      by simp
    then have "(of_int m :: rat) / 2 ^ k \<le> 1"
      by (simp add: divide_le_eq)
    then show ?thesis
      by (simp add: fr p)
  next
    case False
    then have e: "0 \<le> e" "1 \<le> nat e" by simp_all
    have p: "pow2 e = 2 ^ nat e"
      using e by (simp add: pow2_def)
    have "(2::rat) ^ 1 \<le> 2 ^ nat e"
      using e(2) by (intro power_increasing) simp_all
    then have p2: "(2::rat) \<le> pow2 e"
      by (simp add: p)
    have "\<bar>x\<bar> / pow2 e \<le> 1 / 2"
      using assms x p2 pow2_pos [of e] by (simp add: field_simps)
    moreover have "0 \<le> \<bar>x\<bar> / pow2 e" by (rule q0)
    ultimately have "0 \<le> \<bar>x\<bar> / pow2 e \<and> \<bar>x\<bar> / pow2 e < 1"
      by linarith
    then have fl: "\<lfloor>\<bar>x\<bar> / pow2 e\<rfloor> = 0"
      by (simp add: floor_eq_iff)
    have "m = 0"
      using \<open>\<bar>x\<bar> / pow2 e \<le> 1 / 2\<close> by (simp add: m_def round_half_even_def Let_def fl)
    then show ?thesis
      by (simp add: fr)
  qed
  from lo hi show ?thesis ..
qed

lemma kahan_step_exact:
  assumes "\<bar>a\<bar> + \<bar>x\<bar> < 2 ^ 53"
  shows "kahan_step (float64_round (of_int x)) (of_int a, 0) = (of_int (a + x), 0)"
proof -
  have x: "float64_round (of_int x) = of_int x"
    using assms by (intro float64_round_int) simp
  have "float64_round (of_int (a + x)) = of_int (a + x)"
    using assms by (intro float64_round_int) simp
  then have t: "float64_round (of_int a + of_int x) = of_int (a + x)"
    by simp
  have z: "float64_round 0 = 0"
    unfolding float64_round_def by simp
  have c: "float64_round (float64_round (of_int (a + x) - of_int a) - of_int x) = 0"
    by (simp add: x z)
  show ?thesis
    by (simp add: kahan_step_def Let_def x t c z)
qed

lemma fold_kahan_exact:
  assumes "\<bar>a\<bar> + sum_list (map abs xs) < 2 ^ 53"
  shows "fold kahan_step (map (\<lambda>x. float64_round (of_int x)) xs) (of_int a, 0) =
    (of_int (a + sum_list xs), 0)"
  using assms
proof (induction xs arbitrary: a)
  case Nil
  then show ?case by simp
next
  case (Cons x xs)
  have n: "0 \<le> sum_list (map abs xs)"
    by (rule sum_list_nonneg) auto
  from Cons.prems n have s: "\<bar>a\<bar> + \<bar>x\<bar> < 2 ^ 53"
    by simp
  from Cons.prems have "\<bar>a + x\<bar> + sum_list (map abs xs) < 2 ^ 53"
    by simp
  from Cons.IH [OF this] kahan_step_exact [OF s] show ?case
    by (simp add: add.assoc)
qed

lemma float_sum_exact:
  assumes "sum_list (map abs xs) < 2 ^ 53"
  shows "float_sum (map (\<lambda>x. float64_round (of_int x)) xs) = of_int (sum_list xs)"
  using fold_kahan_exact [of 0 xs] assms by (simp add: float_sum_def)

lemma agg_sum_small:
  assumes "sum_list (map abs (List.map_filter col rows)) < 2 ^ 53"
  shows "agg_sum b col rows = sum_list (List.map_filter col rows)"
proof -
  define xs where "xs = List.map_filter col rows"
  have a: "sum_list (map abs xs) < 2 ^ 53"
    using assms by (simp add: xs_def)
  have "\<bar>sum_list xs\<bar> \<le> sum_list (map abs xs)"
    by (rule sum_list_abs)
  with a have "\<bar>sum_list xs\<bar> < 2 ^ 53"
    by simp
  then have i: "int64 (sum_list xs) = sum_list xs"
    by (intro int64_id; simp)
  have f: "\<lfloor>float_sum (map (\<lambda>x. float64_round (of_int x)) xs)\<rfloor> = sum_list xs"
    by (simp add: float_sum_exact [OF a])
  show ?thesis
    unfolding agg_sum_def Let_def xs_def [symmetric] using i f by simp
qed

lemma agg_sum_Nil: "agg_sum b col [] = 0"
  by (simp add: agg_sum_def float_sum_def int64_def)

section \<open>Properties of the demographic table\<close>

lemma length_map_filter: "length (List.map_filter col xs) = length (filter (\<lambda>r. col r \<noteq> None) xs)"
  by (induction xs) (auto simp: map_filter_simps split: option.splits)

lemma age_group_cases:
  "age_group r =
     (case Age r of
        None \<Rightarrow> None
      | Some x \<Rightarrow>
          if 0 \<le> x \<and> x \<le> 12 then Some ''Child''
          else if 12 < x \<and> x \<le> 19 then Some ''Teen''
          else if 19 < x \<and> x \<le> 59 then Some ''Adult''
          else if 59 < x \<and> x \<le> 120 then Some ''Senior''
          else None)"
  by (auto simp: age_group_def pd_cut_def bins_def labels_def split: option.splits)

lemma demo_rows_table: "survival_demographics demo_rows = demo_table"
  by code_simp

lemma set_map_filter_iff: "v \<in> set (List.map_filter col xs) \<longleftrightarrow> (\<exists>r \<in> set xs. col r = Some v)"
  by (induction xs) (auto simp: map_filter_simps split: option.splits)

lemma observed_iff: "v \<in> observed col df \<longleftrightarrow> (\<exists>r \<in> set df. col r = Some v)"
  by (simp add: observed_def set_map_filter_iff)

lemma set_sorted_unique: "set (sorted_unique col df) = observed col df"
  by (simp add: sorted_unique_def observed_def)

lemma distinct_sorted_unique: "distinct (sorted_unique col df)"
  by (simp add: sorted_unique_def)

lemma length_sorted_unique: "length (sorted_unique col df) = card (observed col df)"
  by (simp add: sorted_unique_def observed_def length_remdups_card_conv)

lemma distinct_labels: "distinct labels"
  by (simp add: labels_def)

lemma set_labels: "set labels = {''Child'', ''Teen'', ''Adult'', ''Senior''}"
  by (simp add: labels_def)

lemma length_labels: "length labels = 4"
  by (simp add: labels_def)

lemma distinct_full_index: "distinct (full_index df)"
  by (simp add: full_index_def pclasses_def sexes_def distinct_product distinct_sorted_unique
      distinct_labels)

lemma set_full_index:
  "set (full_index df) = observed Pclass df \<times> observed Sex df \<times> set labels"
  by (simp add: full_index_def pclasses_def sexes_def set_sorted_unique)

lemma length_full_index:
  "length (full_index df) = card (observed Pclass df) * card (observed Sex df) * 4"
  by (simp add: full_index_def pclasses_def sexes_def length_sorted_unique length_labels)

lemma map_fst_reindex: "map fst (reindex idx tbl) = idx"
  by (simp add: reindex_def comp_def)

lemma cell_key_with_rate: "cell_key (with_rate row) = fst row"
  by (cases row) (auto simp: cell_key_def with_rate_def)

lemma cut_from_labels: "cut_from bs ls x = Some l \<Longrightarrow> l \<in> set ls"
  by (induction bs ls x rule: cut_from.induct) (auto split: if_splits)

lemma pd_cut_labels: "pd_cut bs ls v = Some l \<Longrightarrow> l \<in> set ls"
  by (auto simp: pd_cut_def split: option.splits list.splits if_splits dest: cut_from_labels)

lemma in_group_grouped_index:
  assumes "in_group k r" and "r \<in> set rows"
  shows "k \<in> set (grouped_index rows)"
proof -
  obtain c s g where k: "k = (c, s, g)"
    by (cases k)
  from assms(1) have r: "Pclass r = Some c" "Sex r = Some s" "age_group r = Some g"
    by (simp_all add: k in_group_def)
  from r(1,2) have "class_sex r = Some (c, s)"
    by (simp add: class_sex_def)
  with assms(2) have "(c, s) \<in> set (List.map_filter class_sex rows)"
    by (auto simp: set_map_filter_iff)
  moreover from r(3) have "g \<in> set labels"
    by (auto simp: age_group_def dest: pd_cut_labels)
  ultimately show ?thesis
    by (force simp: grouped_index_def k)
qed

lemma filter_in_group_kept: "filter (in_group k) (kept df) = filter (in_group k) df"
  by (cases k) (auto simp: kept_def in_group_def intro: filter_cong)

lemma map_of_grouped:
  "map_of (grouped df) k =
     (if k \<in> set (grouped_index (kept df))
      then Some (agg_count Survived (filter (in_group k) df),
                 agg_sum (has_missing Survived df) Survived (filter (in_group k) df))
      else None)"
  by (simp add: grouped_def map_of_map_restrict restrict_map_def filter_in_group_kept)

lemma filter_in_group_empty:
  assumes "k \<notin> set (grouped_index (kept df))"
  shows "filter (in_group k) df = []"
proof -
  have "\<not> in_group k r" if "r \<in> set (kept df)" for r
    using assms that in_group_grouped_index by blast
  then have "filter (in_group k) (kept df) = []"
    by (simp add: filter_empty_conv)
  then show ?thesis
    by (simp add: filter_in_group_kept)
qed

lemma reindex_grouped:
  "reindex idx (grouped df) =
     map (\<lambda>k. (k, agg_count Survived (filter (in_group k) df),
                   agg_sum (has_missing Survived df) Survived (filter (in_group k) df))) idx"
  by (auto simp: reindex_def map_of_grouped filter_in_group_empty agg_count_def agg_sum_Nil)

lemma map_cell_key_reindexed:
  "map cell_key (map with_rate (reindex idx t)) = idx"
  by (simp add: comp_def cell_key_with_rate reindex_def)

lemma survival_demographics_sorted:
  "survival_demographics df =
      sort_key cat_key (map with_rate (reindex (full_index df) (grouped df)))
   \<or> survival_demographics df =
      sort_key cell_key (map with_rate (reindex (full_index df) (grouped df)))"
  by (simp add: survival_demographics_def Let_def)

lemma survival_demographics_mset:
  "mset (survival_demographics df) =
     mset (map with_rate (reindex (full_index df) (grouped df)))"
  using survival_demographics_sorted [of df] by (auto simp only: mset_sort)

lemma survival_demographics_keys:
  "mset (map cell_key (survival_demographics df)) = mset (full_index df)"
proof -
  have "mset (map cell_key (survival_demographics df)) =
      image_mset cell_key (mset (survival_demographics df))"
    by (simp only: mset_map)
  also have "\<dots> = mset (map cell_key (map with_rate (reindex (full_index df) (grouped df))))"
    by (simp only: survival_demographics_mset mset_map)
  finally show ?thesis
    by (simp only: map_cell_key_reindexed)
qed

lemma survival_demographics_cell:
  assumes "cell \<in> set (survival_demographics df)"
  shows "cell = with_rate (cell_key cell,
           agg_count Survived (filter (in_group (cell_key cell)) df),
           agg_sum (has_missing Survived df) Survived (filter (in_group (cell_key cell)) df))"
proof -
  have "set (survival_demographics df) =
      set (map with_rate (reindex (full_index df) (grouped df)))"
    using survival_demographics_mset [of df] by (rule mset_eq_setD)
  with assms have "cell \<in> set (map with_rate (reindex (full_index df) (grouped df)))"
    by simp
  then obtain k where
    "cell = with_rate (k, agg_count Survived (filter (in_group k) df),
                          agg_sum (has_missing Survived df) Survived (filter (in_group k) df))"
    by (auto simp: reindex_grouped)
  then show ?thesis
    by (simp add: cell_key_with_rate)
qed

lemma binary_sums:
  assumes "\<forall>r \<in> set rows. binary (col r)"
  shows "sum_list (map abs (List.map_filter col rows)) = sum_list (List.map_filter col rows)
    \<and> 0 \<le> sum_list (List.map_filter col rows)
    \<and> sum_list (List.map_filter col rows) \<le> int (length (List.map_filter col rows))
    \<and> length (List.map_filter col rows) \<le> length rows"
  using assms
  by (induction rows) (auto simp: map_filter_simps binary_def split: option.splits)

lemma agg_sum_bounds:
  assumes "\<forall>r \<in> set rows. binary (col r)" and "length rows < 2 ^ 53"
  shows "0 \<le> agg_sum b col rows \<and> agg_sum b col rows \<le> agg_count col rows"
proof -
  note s = binary_sums [OF assms(1)]
  from s have "sum_list (List.map_filter col rows) \<le> int (length rows)"
    by linarith
  also have "\<dots> < 2 ^ 53"
    using assms(2) by (metis of_nat_less_iff of_nat_numeral of_nat_power)
  finally have "sum_list (map abs (List.map_filter col rows)) < 2 ^ 53"
    using s by simp
  then have "agg_sum b col rows = sum_list (List.map_filter col rows)"
    by (rule agg_sum_small)
  with s show ?thesis
    by (simp add: agg_count_def)
qed

text \<open>
  Claim C1. For every table of passengers, also one with no class or no sex, the rows of
  \<^verbatim>\<open>survival_demographics\<close> carry exactly the triples of the product of the classes
  present, the sexes present and the four age groups, each triple once, so there are
  (number of classes) times (number of sexes) times 4 rows; and a triple that no
  passenger matches has 0 passengers and 0 survivors.
\<close>

theorem survival_demographics_product:
  "set (map cell_key (survival_demographics df)) =
      observed Pclass df \<times> observed Sex df \<times> {''Child'', ''Teen'', ''Adult'', ''Senior''}
    \<and> distinct (map cell_key (survival_demographics df))
    \<and> length (survival_demographics df) = card (observed Pclass df) * card (observed Sex df) * 4
    \<and> (\<forall>cell \<in> set (survival_demographics df).
          (\<forall>r \<in> set df. \<not> (Pclass r = Some (cell_Pclass cell) \<and> Sex r = Some (cell_Sex cell)
              \<and> age_group r = Some (cell_age_group cell))) \<longrightarrow>
          n_passengers cell = 0 \<and> n_survivors cell = 0)"
proof -
  note keys = survival_demographics_keys [of df]
  have "set (map cell_key (survival_demographics df)) = set (full_index df)"
    using keys by (rule mset_eq_setD)
  then have a: "set (map cell_key (survival_demographics df)) =
      observed Pclass df \<times> observed Sex df \<times> {''Child'', ''Teen'', ''Adult'', ''Senior''}"
    by (simp only: set_full_index set_labels)
  have b: "distinct (map cell_key (survival_demographics df))"
    using keys distinct_full_index [of df] by (metis mset_eq_imp_distinct_iff)
  have "length (map cell_key (survival_demographics df)) = length (full_index df)"
    using keys by (rule mset_eq_length)
  then have c: "length (survival_demographics df) =
      card (observed Pclass df) * card (observed Sex df) * 4"
    by (simp add: length_full_index)
  have d: "n_passengers cell = 0 \<and> n_survivors cell = 0"
    if "cell \<in> set (survival_demographics df)"
      and "\<forall>r \<in> set df. \<not> (Pclass r = Some (cell_Pclass cell) \<and> Sex r = Some (cell_Sex cell)
              \<and> age_group r = Some (cell_age_group cell))" for cell
  proof -
    from that(2) have "filter (in_group (cell_key cell)) df = []"
      by (simp add: filter_empty_conv in_group_def cell_key_def)
    with survival_demographics_cell [OF that(1)]
    have "cell = with_rate (cell_key cell, 0, 0)"
      by (simp add: agg_count_def agg_sum_Nil)
    then have "n_passengers cell = n_passengers (with_rate (cell_key cell, 0, 0))"
      and "n_survivors cell = n_survivors (with_rate (cell_key cell, 0, 0))"
      by simp_all
    then show ?thesis
      by (simp add: with_rate_def split: prod.splits)
  qed
  from a b c d show ?thesis by blast
qed

theorem survival_demographics_product_witness:
  "length (survival_demographics cross_rows) =
      card (observed Pclass cross_rows) * card (observed Sex cross_rows) * 4
   \<and> card (observed Pclass cross_rows) = 3 \<and> card (observed Sex cross_rows) = 2
   \<and> distinct (map cell_key (survival_demographics cross_rows))
   \<and> set (map cell_key (survival_demographics cross_rows)) =
       observed Pclass cross_rows \<times> observed Sex cross_rows \<times> {''Child'', ''Teen'', ''Adult'', ''Senior''}
   \<and> cross_filled \<in> set (survival_demographics cross_rows)
   \<and> cell_key cross_filled = (2, ''male'', ''Child'')
   \<and> n_passengers cross_filled = 0 \<and> n_survivors cross_filled = 0
   \<and> cross_unseen \<in> set (survival_demographics cross_rows)
   \<and> cell_key cross_unseen = (1, ''male'', ''Adult'')
   \<and> n_passengers cross_unseen = 0 \<and> n_survivors cross_unseen = 0
   \<and> observed Pclass nosex_rows = {1} \<and> observed Sex nosex_rows = {}
   \<and> length (survival_demographics nosex_rows) = 0"
proof -
  note t = survival_demographics_product [of cross_rows]
  have c: "card (observed Pclass cross_rows) = 3" "card (observed Sex cross_rows) = 2"
    by code_simp+
  have m: "cross_filled \<in> set (survival_demographics cross_rows)"
    "cross_unseen \<in> set (survival_demographics cross_rows)"
    by code_simp+
  have k: "cell_key cross_filled = (2, ''male'', ''Child'')"
    "cell_key cross_unseen = (1, ''male'', ''Adult'')"
    by (simp_all add: cross_filled_def cross_unseen_def cell_key_def)
  have e: "\<forall>r \<in> set cross_rows. \<not> (Pclass r = Some (cell_Pclass cross_filled)
        \<and> Sex r = Some (cell_Sex cross_filled)
        \<and> age_group r = Some (cell_age_group cross_filled))"
    "\<forall>r \<in> set cross_rows. \<not> (Pclass r = Some (cell_Pclass cross_unseen)
        \<and> Sex r = Some (cell_Sex cross_unseen)
        \<and> age_group r = Some (cell_age_group cross_unseen))"
    by (simp_all add: cross_filled_def cross_unseen_def cross_rows_def sample_row_def
        age_group_cases)
  from t have z: "\<forall>cell \<in> set (survival_demographics cross_rows).
      (\<forall>r \<in> set cross_rows. \<not> (Pclass r = Some (cell_Pclass cell) \<and> Sex r = Some (cell_Sex cell)
          \<and> age_group r = Some (cell_age_group cell))) \<longrightarrow>
      n_passengers cell = 0 \<and> n_survivors cell = 0"
    by - (elim conjE, assumption)
  from z m(1) e(1) have f: "n_passengers cross_filled = 0 \<and> n_survivors cross_filled = 0"
    by blast
  from z m(2) e(2) have u: "n_passengers cross_unseen = 0 \<and> n_survivors cross_unseen = 0"
    by blast
  have o: "observed Pclass nosex_rows = {1}" "observed Sex nosex_rows = {}"
    by (simp_all add: observed_def nosex_rows_def map_filter_simps)
  have n: "length (survival_demographics nosex_rows) = 0"
    using survival_demographics_product [of nosex_rows] by (simp add: o)
  from t c m k f u o n show ?thesis
    by - (intro conjI; (elim conjE)?; assumption)
qed

text \<open>
  Claim C2, as the specification states it, fails: the rate is not bounded by 1 for every
  table. A row whose survived flag is 2 gives its cell the rate 2.
\<close>

theorem survival_rate_bound_counterexample:
  "cell_key (survival_demographics flag_rows ! 2) = (1, ''male'', ''Adult'')
   \<and> n_passengers (survival_demographics flag_rows ! 2) = 1
   \<and> n_survivors (survival_demographics flag_rows ! 2) = 2
   \<and> survival_rate (survival_demographics flag_rows ! 2) = 2
   \<and> \<not> survival_rate (survival_demographics flag_rows ! 2) \<le> 1"
  by code_simp

text \<open>
  Claim C2, amended. In every row of the table the survival rate is the float quotient of
  the survivors by the passengers (the float nearest to the quotient) when there is a
  passenger, and 0 when there is none; when every survived flag that is present is 0 or 1,
  in a table of fewer than \<open>2 ^ 53\<close> rows, the rate lies between 0 and 1. The passengers
  of a row are the rows of its class, sex and age group that have a survived flag, and
  the survivors are the sum of those flags (for flags whose magnitudes add up to less
  than \<open>2 ^ 53\<close>, where the sum of the column is exact).
\<close>

theorem survival_rate_exact:
  assumes "cell \<in> set (survival_demographics df)"
  shows "(0 < n_passengers cell \<longrightarrow>
            survival_rate cell =
              float64_round (of_int (n_survivors cell) / of_int (n_passengers cell)))
    \<and> (n_passengers cell = 0 \<longrightarrow> survival_rate cell = 0)
    \<and> 0 \<le> n_passengers cell
    \<and> ((\<forall>r \<in> set df. binary (Survived r)) \<and> length df < 2 ^ 53 \<longrightarrow>
          0 \<le> survival_rate cell \<and> survival_rate cell \<le> 1)
    \<and> n_passengers cell =
        int (length (filter (\<lambda>r. (Pclass r = Some (cell_Pclass cell)
              \<and> Sex r = Some (cell_Sex cell) \<and> age_group r = Some (cell_age_group cell))
              \<and> Survived r \<noteq> None) df))
    \<and> (sum_list (map abs (List.map_filter Survived
            (filter (\<lambda>r. Pclass r = Some (cell_Pclass cell) \<and> Sex r = Some (cell_Sex cell)
                \<and> age_group r = Some (cell_age_group cell)) df))) < 2 ^ 53 \<longrightarrow>
        n_survivors cell =
          sum_list (List.map_filter Survived
            (filter (\<lambda>r. Pclass r = Some (cell_Pclass cell) \<and> Sex r = Some (cell_Sex cell)
                \<and> age_group r = Some (cell_age_group cell)) df)))"
proof -
  define k where "k = cell_key cell"
  define grp where "grp = filter (\<lambda>r. Pclass r = Some (cell_Pclass cell)
      \<and> Sex r = Some (cell_Sex cell) \<and> age_group r = Some (cell_age_group cell)) df"
  have "in_group k = (\<lambda>r. Pclass r = Some (cell_Pclass cell)
      \<and> Sex r = Some (cell_Sex cell) \<and> age_group r = Some (cell_age_group cell))"
    by (rule ext) (simp add: in_group_def k_def cell_key_def)
  then have grp: "filter (in_group k) df = grp"
    by (simp only: grp_def)
  define n where "n = agg_count Survived (filter (in_group k) df)"
  define s where "s = agg_sum (has_missing Survived df) Survived (filter (in_group k) df)"
  have cell: "cell = with_rate (k, n, s)"
    using survival_demographics_cell [OF assms] by (simp add: k_def n_def s_def)
  have n: "n_passengers cell = n" and s: "n_survivors cell = s"
    and rate: "survival_rate cell =
      (if n = 0 then 0 else float64_round (of_int s / of_int n))"
    by (simp_all add: cell with_rate_def split: prod.splits)
  have n0: "0 \<le> n"
    by (simp add: n_def agg_count_def)
  have "0 \<le> survival_rate cell \<and> survival_rate cell \<le> 1"
    if "(\<forall>r \<in> set df. binary (Survived r)) \<and> length df < 2 ^ 53"
  proof (cases "n = 0")
    case True
    then show ?thesis
      by (simp add: rate)
  next
    case False
    from that have "\<forall>r \<in> set (filter (in_group k) df). binary (Survived r)"
      by simp
    moreover have "length (filter (in_group k) df) < 2 ^ 53"
      using that length_filter_le [of "in_group k" df] by linarith
    ultimately have sn: "0 \<le> s \<and> s \<le> n"
      unfolding n_def s_def by (rule agg_sum_bounds)
    with False n0 have "0 \<le> (of_int s / of_int n :: rat)"
      and "(of_int s / of_int n :: rat) \<le> 1"
      by (simp_all add: divide_le_eq_1)
    then have "0 \<le> float64_round (of_int s / of_int n)
        \<and> float64_round (of_int s / of_int n) \<le> 1"
      by (rule float64_round_unit)
    with False show ?thesis
      by (simp add: rate)
  qed
  then have b: "(\<forall>r \<in> set df. binary (Survived r)) \<and> length df < 2 ^ 53 \<longrightarrow>
      0 \<le> survival_rate cell \<and> survival_rate cell \<le> 1"
    by blast
  have r: "(0 < n_passengers cell \<longrightarrow>
            survival_rate cell =
              float64_round (of_int (n_survivors cell) / of_int (n_passengers cell)))
    \<and> (n_passengers cell = 0 \<longrightarrow> survival_rate cell = 0)
    \<and> 0 \<le> n_passengers cell"
    using n s rate n0 by simp
  have "n_passengers cell = int (length (filter (\<lambda>r. Survived r \<noteq> None) grp))"
    by (simp add: n n_def grp agg_count_def length_map_filter)
  then have c: "n_passengers cell =
      int (length (filter (\<lambda>r. (Pclass r = Some (cell_Pclass cell)
        \<and> Sex r = Some (cell_Sex cell) \<and> age_group r = Some (cell_age_group cell))
        \<and> Survived r \<noteq> None) df))"
    by (simp only: grp_def filter_filter)
  have "n_survivors cell = sum_list (List.map_filter Survived grp)"
    if "sum_list (map abs (List.map_filter Survived grp)) < 2 ^ 53"
    using agg_sum_small [OF that] by (simp add: s s_def grp)
  then have t: "sum_list (map abs (List.map_filter Survived
            (filter (\<lambda>r. Pclass r = Some (cell_Pclass cell) \<and> Sex r = Some (cell_Sex cell)
                \<and> age_group r = Some (cell_age_group cell)) df))) < 2 ^ 53 \<longrightarrow>
        n_survivors cell =
          sum_list (List.map_filter Survived
            (filter (\<lambda>r. Pclass r = Some (cell_Pclass cell) \<and> Sex r = Some (cell_Sex cell)
                \<and> age_group r = Some (cell_age_group cell)) df))"
    unfolding grp_def by blast
  from r b c t show ?thesis
    by - (intro conjI; (elim conjE)?; assumption)
qed

theorem survival_rate_exact_witness:
  "demo_table ! 1 \<in> set (survival_demographics demo_rows)
   \<and> 0 < n_passengers (demo_table ! 1)
   \<and> survival_rate (demo_table ! 1) =
       float64_round (of_int (n_survivors (demo_table ! 1)) / of_int (n_passengers (demo_table ! 1)))
   \<and> survival_rate (demo_table ! 1) = 1 / 2
   \<and> 0 \<le> survival_rate (demo_table ! 1) \<and> survival_rate (demo_table ! 1) \<le> 1
   \<and> demo_table ! 0 \<in> set (survival_demographics demo_rows)
   \<and> n_passengers (demo_table ! 0) = 0
   \<and> survival_rate (demo_table ! 0) = 0
   \<and> survival_demographics third_rows ! 2 \<in> set (survival_demographics third_rows)
   \<and> n_passengers (survival_demographics third_rows ! 2) = 3
   \<and> n_survivors (survival_demographics third_rows ! 2) = 1
   \<and> survival_rate (survival_demographics third_rows ! 2) =
       float64_round (of_int (n_survivors (survival_demographics third_rows ! 2))
         / of_int (n_passengers (survival_demographics third_rows ! 2)))
   \<and> survival_rate (survival_demographics third_rows ! 2) =
       6004799503160661 / 18014398509481984
   \<and> survival_rate (survival_demographics third_rows ! 2) \<le> 1
   \<and> List.map_filter Survived
         (filter (\<lambda>r. Pclass r = Some (cell_Pclass (survival_demographics third_rows ! 2))
             \<and> Sex r = Some (cell_Sex (survival_demographics third_rows ! 2))
             \<and> age_group r = Some (cell_age_group (survival_demographics third_rows ! 2)))
           third_rows) = [1, 0, 0]
   \<and> n_survivors (survival_demographics third_rows ! 2) =
       sum_list (List.map_filter Survived
         (filter (\<lambda>r. Pclass r = Some (cell_Pclass (survival_demographics third_rows ! 2))
             \<and> Sex r = Some (cell_Sex (survival_demographics third_rows ! 2))
             \<and> age_group r = Some (cell_age_group (survival_demographics third_rows ! 2)))
           third_rows))"
proof -
  have c: "demo_table ! 1 \<in> set (survival_demographics demo_rows)"
    "demo_table ! 0 \<in> set (survival_demographics demo_rows)"
    by (simp_all add: demo_rows_table) (simp_all add: demo_table_def)
  have n: "0 < n_passengers (demo_table ! 1)" "n_passengers (demo_table ! 0) = 0"
    by (simp_all add: demo_table_def)
  have b: "(\<forall>r \<in> set demo_rows. binary (Survived r)) \<and> length demo_rows < 2 ^ 53"
    by (simp add: demo_rows_def sample_row_def binary_def)
  have v: "survival_rate (demo_table ! 1) = 1 / 2"
    by (simp add: demo_table_def)
  have d: "survival_rate (demo_table ! 1) =
       float64_round (of_int (n_survivors (demo_table ! 1)) / of_int (n_passengers (demo_table ! 1)))
   \<and> 0 \<le> survival_rate (demo_table ! 1) \<and> survival_rate (demo_table ! 1) \<le> 1"
    using survival_rate_exact [OF c(1)] n(1) b by blast
  have z: "survival_rate (demo_table ! 0) = 0"
    using survival_rate_exact [OF c(2)] n(2) by blast
  have tc: "survival_demographics third_rows ! 2 \<in> set (survival_demographics third_rows)"
    by code_simp
  have tn: "n_passengers (survival_demographics third_rows ! 2) = 3"
    "n_survivors (survival_demographics third_rows ! 2) = 1"
    "survival_rate (survival_demographics third_rows ! 2) =
       6004799503160661 / 18014398509481984"
    by code_simp+
  have tp: "0 < n_passengers (survival_demographics third_rows ! 2)"
    by (simp add: tn)
  have tb: "(\<forall>r \<in> set third_rows. binary (Survived r)) \<and> length third_rows < 2 ^ 53"
    by (simp add: third_rows_def sample_row_def binary_def)
  have tr: "survival_rate (survival_demographics third_rows ! 2) =
       float64_round (of_int (n_survivors (survival_demographics third_rows ! 2))
         / of_int (n_passengers (survival_demographics third_rows ! 2)))
     \<and> survival_rate (survival_demographics third_rows ! 2) \<le> 1"
    using survival_rate_exact [OF tc] tp tb by blast
  have tf: "List.map_filter Survived
         (filter (\<lambda>r. Pclass r = Some (cell_Pclass (survival_demographics third_rows ! 2))
             \<and> Sex r = Some (cell_Sex (survival_demographics third_rows ! 2))
             \<and> age_group r = Some (cell_age_group (survival_demographics third_rows ! 2)))
           third_rows) = [1, 0, 0]"
    by code_simp
  have tg: "sum_list (map abs (List.map_filter Survived
         (filter (\<lambda>r. Pclass r = Some (cell_Pclass (survival_demographics third_rows ! 2))
             \<and> Sex r = Some (cell_Sex (survival_demographics third_rows ! 2))
             \<and> age_group r = Some (cell_age_group (survival_demographics third_rows ! 2)))
           third_rows))) < 2 ^ 53"
    by (simp only: tf) simp
  have ts: "n_survivors (survival_demographics third_rows ! 2) =
       sum_list (List.map_filter Survived
         (filter (\<lambda>r. Pclass r = Some (cell_Pclass (survival_demographics third_rows ! 2))
             \<and> Sex r = Some (cell_Sex (survival_demographics third_rows ! 2))
             \<and> age_group r = Some (cell_age_group (survival_demographics third_rows ! 2)))
           third_rows))"
    using survival_rate_exact [OF tc] tg by blast
  from c n v d z tc tn tr tf ts show ?thesis
    by - (intro conjI; (elim conjE)?; assumption)
qed

text \<open>
  Claim C3, as the specification states it, fails: an age of 12.5 is given the group Teen,
  and the interval [13,19] the specification writes for Teen does not hold it.
\<close>

theorem age_group_spec_counterexample:
  "Age (hd demo_rows) = Some (25 / 2) \<and> age_group (hd demo_rows) = Some ''Teen''
   \<and> spec_age_group (Age (hd demo_rows)) = None"
  by (simp add: demo_rows_def sample_row_def age_group_cases spec_age_group_def)

text \<open>
  Claim C3, amended. The four buckets are the adjoining intervals [0,12], (12,19], (19,59]
  and (59,120], each closed above; for a whole number of years they are the intervals the
  specification writes. A row with a missing age or an age outside [0,120] has no age
  group, belongs to no group, and the passenger count of a cell counts only rows of its
  class, sex and age group.
\<close>

theorem age_group_buckets:
  "age_group r =
     (case Age r of
        None \<Rightarrow> None
      | Some x \<Rightarrow>
          if 0 \<le> x \<and> x \<le> 12 then Some ''Child''
          else if 12 < x \<and> x \<le> 19 then Some ''Teen''
          else if 19 < x \<and> x \<le> 59 then Some ''Adult''
          else if 59 < x \<and> x \<le> 120 then Some ''Senior''
          else None)
   \<and> (Age r = Some (of_int n) \<longrightarrow> age_group r = spec_age_group (Age r))
   \<and> (age_group r = None \<longrightarrow> \<not> in_group k r)
   \<and> (cell \<in> set (survival_demographics df) \<longrightarrow>
        n_passengers cell =
          int (length (filter (\<lambda>p. in_group (cell_key cell) p \<and> Survived p \<noteq> None) df)))"
proof -
  have b: "age_group r = spec_age_group (Age r)" if "Age r = Some (of_int n)"
  proof -
    have "(12::rat) < of_int n \<longleftrightarrow> (13::rat) \<le> of_int n"
      and "(19::rat) < of_int n \<longleftrightarrow> (20::rat) \<le> of_int n"
      and "(59::rat) < of_int n \<longleftrightarrow> (60::rat) \<le> of_int n"
      by (simp_all, linarith+)
    then show ?thesis
      by (simp add: age_group_cases [of r] spec_age_group_def that)
  qed
  have c: "\<not> in_group k r" if "age_group r = None"
    using that by (cases k) (simp add: in_group_def)
  have d: "n_passengers cell =
      int (length (filter (\<lambda>p. in_group (cell_key cell) p \<and> Survived p \<noteq> None) df))"
    if "cell \<in> set (survival_demographics df)"
  proof -
    have "n_passengers cell = n_passengers (with_rate (cell_key cell,
           agg_count Survived (filter (in_group (cell_key cell)) df),
           agg_sum (has_missing Survived df) Survived (filter (in_group (cell_key cell)) df)))"
      using survival_demographics_cell [OF that] by simp
    then show ?thesis
      by (simp add: with_rate_def agg_count_def length_map_filter conj_commute split: prod.splits)
  qed
  from age_group_cases [of r] b c d show ?thesis
    by blast
qed

theorem age_group_buckets_witness:
  "Age (demo_rows ! 1) = Some (of_int 19)
   \<and> age_group (demo_rows ! 1) = spec_age_group (Age (demo_rows ! 1))
   \<and> age_group (demo_rows ! 1) = Some ''Teen''
   \<and> age_group (demo_rows ! 2) = None
   \<and> \<not> in_group (3, ''male'', ''Teen'') (demo_rows ! 2)
   \<and> demo_table ! 1 \<in> set (survival_demographics demo_rows)
   \<and> n_passengers (demo_table ! 1) =
       int (length (filter (\<lambda>p. in_group (cell_key (demo_table ! 1)) p \<and> Survived p \<noteq> None)
         demo_rows))
   \<and> n_passengers (demo_table ! 1) = 2"
proof -
  have a: "Age (demo_rows ! 1) = Some (of_int 19)"
    by (simp add: demo_rows_def sample_row_def)
  have g: "age_group (demo_rows ! 1) = Some ''Teen''"
    by (simp add: demo_rows_def sample_row_def age_group_cases)
  have m: "age_group (demo_rows ! 2) = None"
    by (simp add: demo_rows_def sample_row_def age_group_cases)
  have c: "demo_table ! 1 \<in> set (survival_demographics demo_rows)"
    "n_passengers (demo_table ! 1) = 2"
    by (simp_all add: demo_rows_table) (simp_all add: demo_table_def)
  from age_group_buckets [of "demo_rows ! 1" 19 "(3, ''male'', ''Teen'')" "demo_table ! 1"
      demo_rows]
    age_group_buckets [of "demo_rows ! 2" 19 "(3, ''male'', ''Teen'')" "demo_table ! 1"
      demo_rows]
    a g m c
  show ?thesis
    by blast
qed

section \<open>Properties of the family table\<close>

lemma mixed_rows_families: "family_groups exact_mean mixed_rows = mixed_families"
  by code_simp

lemma family_size_small:
  assumes "\<bar>fillna0 (SibSp r)\<bar> < 2 ^ 52" and "\<bar>fillna0 (Parch r)\<bar> < 2 ^ 52"
  shows "family_size df r = fillna0 (SibSp r) + fillna0 (Parch r) + 1"
proof -
  define s where "s = fillna0 (SibSp r)"
  define p where "p = fillna0 (Parch r)"
  have b: "\<bar>s\<bar> < 2 ^ 52" "\<bar>p\<bar> < 2 ^ 52"
    using assms by (simp_all add: s_def p_def)
  have i: "int64 (int64 (s + p) + 1) = s + p + 1"
  proof -
    have "int64 (s + p) = s + p"
      using b by (intro int64_id; simp)
    moreover have "int64 (s + p + 1) = s + p + 1"
      using b by (intro int64_id; simp)
    ultimately show ?thesis by simp
  qed
  have f: "\<lfloor>float64_round
        (float64_round (float64_round (of_int s) + float64_round (of_int p)) + 1)\<rfloor> = s + p + 1"
  proof -
    have r1: "float64_round (of_int s) + float64_round (of_int p) = (of_int (s + p) :: rat)"
      using b by (simp add: float64_round_int)
    have "float64_round (of_int (s + p)) = of_int (s + p)"
      using b by (intro float64_round_int; simp)
    then have r2: "float64_round (of_int (s + p)) + 1 = (of_int (s + p + 1) :: rat)"
      by simp
    have r3: "float64_round (of_int (s + p + 1)) = of_int (s + p + 1)"
      using b by (intro float64_round_int; simp)
    show ?thesis
      by (simp only: r1 r2 r3 floor_of_int)
  qed
  show ?thesis
    unfolding family_size_def Let_def s_def [symmetric] p_def [symmetric]
    using i f by simp
qed

lemma set_family_index:
  "set (family_index df) = {(c, family_size df r) | c r. r \<in> set df \<and> Pclass r = Some c}"
  by (auto simp: family_index_def set_map_filter_iff)

lemma family_index_member:
  assumes "k \<in> set (family_index df)"
  shows "\<exists>m \<in> set df. family_member df k m"
  using assms by (auto simp: set_family_index family_member_def)

lemma family_groups_cell:
  assumes "cell \<in> set (family_groups fmean df)"
  shows "fam_key cell \<in> set (family_index df) \<and> cell = family_agg fmean df (fam_key cell)"
proof -
  from assms obtain k where k: "k \<in> set (family_index df)" and c: "cell = family_agg fmean df k"
    by (auto simp: family_groups_def)
  have "fam_key (family_agg fmean df k) = k"
    by (simp add: fam_key_def family_agg_def Let_def)
  with k c show ?thesis
    by simp
qed

lemma family_size_ge_1:
  assumes "count_ok (SibSp r)" and "count_ok (Parch r)"
  shows "1 \<le> family_size df r"
proof -
  have s: "0 \<le> fillna0 (SibSp r) \<and> fillna0 (SibSp r) < 2 ^ 52"
    using assms(1) by (simp add: fillna0_def count_ok_def split: option.splits)
  have p: "0 \<le> fillna0 (Parch r) \<and> fillna0 (Parch r) < 2 ^ 52"
    using assms(2) by (simp add: fillna0_def count_ok_def split: option.splits)
  have "family_size df r = fillna0 (SibSp r) + fillna0 (Parch r) + 1"
    using s p by (intro family_size_small) simp_all
  with s p show ?thesis
    by simp
qed

lemma map_filter_all_None:
  "List.map_filter col rows = [] \<longleftrightarrow> (\<forall>r \<in> set rows. col r = None)"
  by (induction rows) (auto simp: map_filter_simps split: option.splits)

lemma fold_min_Min: "fold min xs (x::rat) = Min (set (x # xs))"
  by (simp only: Min.set_eq_fold)

lemma fold_max_Max: "fold max xs (x::rat) = Max (set (x # xs))"
  by (simp only: Max.set_eq_fold)

text \<open>
  Claim C6, as the specification states it, fails: a row with a sibling count of -1 has
  the family size 0, and the table of \<^verbatim>\<open>family_groups\<close> has a row with that size. And
  for a sibling count of \<open>2 ^ 63 - 1\<close> the \<^verbatim>\<open>int64\<close> sum wraps around to \<open>- 2 ^ 63\<close>.
\<close>

theorem family_size_counterexample:
  "SibSp (hd neg_rows) = Some (- 1) \<and> Parch (hd neg_rows) = Some 0
   \<and> family_size neg_rows (hd neg_rows) = 0
   \<and> fam_family_size (hd (family_groups exact_mean neg_rows)) = 0
   \<and> \<not> 1 \<le> fam_family_size (hd (family_groups exact_mean neg_rows))
   \<and> SibSp (hd wrap_rows) = Some (2 ^ 63 - 1) \<and> Parch (hd wrap_rows) = Some 0
   \<and> family_size wrap_rows (hd wrap_rows) = - (2 ^ 63)
   \<and> family_size wrap_rows (hd wrap_rows) \<noteq> (2 ^ 63 - 1) + 0 + 1"
  by code_simp

text \<open>
  Claim C6, amended. For a row whose counts are below \<open>2 ^ 52\<close> in magnitude the family
  size is the sibling and spouse count plus the parent and child count plus 1, a missing
  count taken as 0. Every row of the table of \<^verbatim>\<open>family_groups\<close> carries the family size
  of a source row of its class, and that size is at least 1 when no count of the table is
  negative.
\<close>

theorem family_size_sum:
  "(sib = (case SibSp r of None \<Rightarrow> 0 | Some s \<Rightarrow> s)
      \<and> par = (case Parch r of None \<Rightarrow> 0 | Some p \<Rightarrow> p)
      \<and> \<bar>sib\<bar> < 2 ^ 52 \<and> \<bar>par\<bar> < 2 ^ 52 \<longrightarrow> family_size df r = sib + par + 1)
   \<and> (cell \<in> set (family_groups fmean df) \<longrightarrow>
        (\<exists>m \<in> set df. Pclass m = Some (fam_Pclass cell)
           \<and> family_size df m = fam_family_size cell))
   \<and> (cell \<in> set (family_groups fmean df)
        \<and> (\<forall>m \<in> set df. count_ok (SibSp m) \<and> count_ok (Parch m))
        \<longrightarrow> 1 \<le> fam_family_size cell)"
proof -
  have val: "family_size df r = sib + par + 1"
    if "sib = (case SibSp r of None \<Rightarrow> 0 | Some s \<Rightarrow> s)
      \<and> par = (case Parch r of None \<Rightarrow> 0 | Some p \<Rightarrow> p)
      \<and> \<bar>sib\<bar> < 2 ^ 52 \<and> \<bar>par\<bar> < 2 ^ 52"
  proof -
    from that have e: "sib = fillna0 (SibSp r)" "par = fillna0 (Parch r)"
      by (simp_all add: fillna0_def)
    from that have "\<bar>sib\<bar> < 2 ^ 52" "\<bar>par\<bar> < 2 ^ 52"
      by blast+
    then show ?thesis
      unfolding e by (rule family_size_small)
  qed
  have src: "\<exists>m \<in> set df. Pclass m = Some (fam_Pclass cell)
      \<and> family_size df m = fam_family_size cell"
    if "cell \<in> set (family_groups fmean df)"
    using family_groups_cell [OF that] family_index_member [of "fam_key cell" df]
    by (simp add: family_member_def fam_key_def)
  have ge: "1 \<le> fam_family_size cell"
    if "cell \<in> set (family_groups fmean df)
        \<and> (\<forall>m \<in> set df. count_ok (SibSp m) \<and> count_ok (Parch m))"
  proof -
    from that src obtain m where "m \<in> set df" and "family_size df m = fam_family_size cell"
      by blast
    with that family_size_ge_1 [of m df] show ?thesis
      by auto
  qed
  from val src ge show ?thesis
    by (intro conjI impI)
qed

theorem family_size_sum_witness:
  "SibSp (mixed_rows ! 1) = Some 1 \<and> Parch (mixed_rows ! 1) = Some 0
   \<and> family_size mixed_rows (mixed_rows ! 1) = 1 + 0 + 1
   \<and> SibSp (mixed_rows ! 3) = None \<and> Parch (mixed_rows ! 3) = Some 0
   \<and> family_size mixed_rows (mixed_rows ! 3) = 0 + 0 + 1
   \<and> SibSp (mixed_rows ! 0) = Some 1 \<and> Parch (mixed_rows ! 0) = None
   \<and> family_size mixed_rows (mixed_rows ! 0) = 1 + 0 + 1
   \<and> SibSp (demo_rows ! 0) = Some 0 \<and> Parch (demo_rows ! 0) = Some 0
   \<and> family_size demo_rows (demo_rows ! 0) = 0 + 0 + 1
   \<and> mixed_families ! 1 \<in> set (family_groups exact_mean mixed_rows)
   \<and> fam_family_size (mixed_families ! 1) = 2
   \<and> 1 \<le> fam_family_size (mixed_families ! 1)
   \<and> (\<exists>m. m \<in> set mixed_rows \<and> Pclass m = Some (fam_Pclass (mixed_families ! 1))
         \<and> family_size mixed_rows m = fam_family_size (mixed_families ! 1))"
proof -
  have r: "SibSp (mixed_rows ! 1) = Some 1 \<and> Parch (mixed_rows ! 1) = Some 0"
    "SibSp (mixed_rows ! 3) = None \<and> Parch (mixed_rows ! 3) = Some 0"
    "SibSp (mixed_rows ! 0) = Some 1 \<and> Parch (mixed_rows ! 0) = None"
    "SibSp (demo_rows ! 0) = Some 0 \<and> Parch (demo_rows ! 0) = Some 0"
    by (simp_all add: mixed_rows_def demo_rows_def sample_row_def)
  have c: "mixed_families ! 1 \<in> set (family_groups exact_mean mixed_rows)"
    "fam_family_size (mixed_families ! 1) = 2"
    by (simp_all add: mixed_rows_families) (simp_all add: mixed_families_def)
  have ok: "\<forall>m \<in> set mixed_rows. count_ok (SibSp m) \<and> count_ok (Parch m)"
    by (simp add: mixed_rows_def count_ok_def)
  have f1: "family_size mixed_rows (mixed_rows ! 1) = 1 + 0 + 1"
    using family_size_sum [where r = "mixed_rows ! 1" and sib = 1 and par = 0
        and df = mixed_rows] r(1)
    by simp
  have f3: "family_size mixed_rows (mixed_rows ! 3) = 0 + 0 + 1"
    using family_size_sum [where r = "mixed_rows ! 3" and sib = 0 and par = 0
        and df = mixed_rows] r(2)
    by simp
  have f0: "family_size mixed_rows (mixed_rows ! 0) = 1 + 0 + 1"
    using family_size_sum [where r = "mixed_rows ! 0" and sib = 1 and par = 0
        and df = mixed_rows] r(3)
    by simp
  have f2: "family_size demo_rows (demo_rows ! 0) = 0 + 0 + 1"
    using family_size_sum [where r = "demo_rows ! 0" and sib = 0 and par = 0
        and df = demo_rows] r(4)
    by simp
  have g: "1 \<le> fam_family_size (mixed_families ! 1)"
    using family_size_sum [where cell = "mixed_families ! 1" and df = mixed_rows
        and fmean = exact_mean] c(1) ok
    by blast
  have e: "\<exists>m. m \<in> set mixed_rows \<and> Pclass m = Some (fam_Pclass (mixed_families ! 1))
      \<and> family_size mixed_rows m = fam_family_size (mixed_families ! 1)"
    using family_size_sum [where cell = "mixed_families ! 1" and df = mixed_rows
        and fmean = exact_mean] c(1)
    by blast
  from r c f1 f3 f0 f2 g e show ?thesis
    by - (intro conjI; (elim conjE)?; assumption)
qed

text \<open>
  Claim C9. Fares are never filled in. In every row of the table of \<^verbatim>\<open>family_groups\<close>
  the minimum and the maximum are the least and the greatest of the fares present in the
  group and the mean is the float mean of exactly those fares; a group in which every
  member lacks a fare has no mean, no minimum and no maximum (missing, not zero).
\<close>

theorem family_groups_missing_fares:
  assumes "cell \<in> set (family_groups fmean df)"
    and "fares = List.map_filter Fare
      (filter (\<lambda>m. Pclass m = Some (fam_Pclass cell) \<and> family_size df m = fam_family_size cell)
        df)"
  shows "((\<forall>m \<in> set df. Pclass m = Some (fam_Pclass cell)
              \<and> family_size df m = fam_family_size cell \<longrightarrow> Fare m = None) \<longrightarrow>
            avg_fare cell = None \<and> min_fare cell = None \<and> max_fare cell = None)
    \<and> (fares \<noteq> [] \<longrightarrow>
          avg_fare cell = Some (fmean fares) \<and> min_fare cell = Some (Min (set fares))
          \<and> max_fare cell = Some (Max (set fares)))
    \<and> (fares = [] \<longrightarrow> avg_fare cell = None \<and> min_fare cell = None \<and> max_fare cell = None)"
proof -
  define rows where "rows = filter (family_member df (fam_key cell)) df"
  have "family_member df (fam_key cell) =
      (\<lambda>m. Pclass m = Some (fam_Pclass cell) \<and> family_size df m = fam_family_size cell)"
    by (rule ext) (simp add: family_member_def fam_key_def)
  then have fares: "fares = List.map_filter Fare rows"
    by (simp only: assms(2) rows_def)
  have cell: "avg_fare cell = agg_mean fmean Fare rows" "min_fare cell = agg_min Fare rows"
    "max_fare cell = agg_max Fare rows"
    using family_groups_cell [OF assms(1)]
    by (metis (no_types, lifting) family_agg_def family_cell.select_convs rows_def)+
  have none: "avg_fare cell = None \<and> min_fare cell = None \<and> max_fare cell = None"
    if "fares = []"
    using that by (simp add: cell fares [symmetric] agg_mean_def agg_min_def agg_max_def)
  have all: "fares = []"
    if "\<forall>m \<in> set df. Pclass m = Some (fam_Pclass cell)
          \<and> family_size df m = fam_family_size cell \<longrightarrow> Fare m = None"
    using that by (simp add: assms(2) map_filter_all_None)
  have some: "avg_fare cell = Some (fmean fares) \<and> min_fare cell = Some (Min (set fares))
      \<and> max_fare cell = Some (Max (set fares))"
    if "fares \<noteq> []"
  proof -
    from that obtain x xs where x: "fares = x # xs"
      by (cases fares) simp_all
    then have "List.map_filter Fare rows = x # xs"
      by (simp only: fares)
    then show ?thesis
      by (simp add: cell agg_mean_def agg_min_def agg_max_def x fold_min_Min fold_max_Max)
  qed
  from none all some show ?thesis
    by blast
qed

theorem family_groups_missing_fares_witness:
  "mixed_families ! 1 \<in> set (family_groups exact_mean mixed_rows)
   \<and> map Fare (filter (\<lambda>m. Pclass m = Some 1 \<and> family_size mixed_rows m = 2) mixed_rows) =
       [None, None]
   \<and> avg_fare (mixed_families ! 1) = None \<and> min_fare (mixed_families ! 1) = None
   \<and> max_fare (mixed_families ! 1) = None
   \<and> mixed_families ! 0 \<in> set (family_groups exact_mean mixed_rows)
   \<and> map Fare (filter (\<lambda>m. Pclass m = Some 1 \<and> family_size mixed_rows m = 1) mixed_rows) =
       [Some 80, None, Some 20]
   \<and> avg_fare (mixed_families ! 0) = Some (exact_mean [80, 20])
   \<and> min_fare (mixed_families ! 0) = Some (Min (set [80, 20]))
   \<and> max_fare (mixed_families ! 0) = Some (Max (set [80, 20]))
   \<and> avg_fare (mixed_families ! 0) = Some 50 \<and> min_fare (mixed_families ! 0) = Some 20
   \<and> max_fare (mixed_families ! 0) = Some 80"
proof -
  have c: "mixed_families ! 1 \<in> set (family_groups exact_mean mixed_rows)"
    "mixed_families ! 0 \<in> set (family_groups exact_mean mixed_rows)"
    by (simp_all add: mixed_rows_families) (simp_all add: mixed_families_def)
  have k: "fam_Pclass (mixed_families ! 1) = 1" "fam_family_size (mixed_families ! 1) = 2"
    "fam_Pclass (mixed_families ! 0) = 1" "fam_family_size (mixed_families ! 0) = 1"
    by (simp_all add: mixed_families_def)
  have g: "map Fare (filter (\<lambda>m. Pclass m = Some 1 \<and> family_size mixed_rows m = 1) mixed_rows) =
      [Some 80, None, Some 20]"
    by code_simp
  have f0: "[80, 20] = List.map_filter Fare
      (filter (\<lambda>m. Pclass m = Some (fam_Pclass (mixed_families ! 0))
          \<and> family_size mixed_rows m = fam_family_size (mixed_families ! 0)) mixed_rows)"
    unfolding k by code_simp
  have n: "\<forall>m \<in> set mixed_rows. Pclass m = Some (fam_Pclass (mixed_families ! 1))
      \<and> family_size mixed_rows m = fam_family_size (mixed_families ! 1) \<longrightarrow> Fare m = None"
    unfolding k by code_simp
  have g1: "map Fare (filter (\<lambda>m. Pclass m = Some 1 \<and> family_size mixed_rows m = 2) mixed_rows) =
      [None, None]"
    by code_simp
  have a: "avg_fare (mixed_families ! 1) = None \<and> min_fare (mixed_families ! 1) = None
      \<and> max_fare (mixed_families ! 1) = None"
    using family_groups_missing_fares [OF c(1) refl] n by blast
  have f1: "[] = List.map_filter Fare
      (filter (\<lambda>m. Pclass m = Some (fam_Pclass (mixed_families ! 1))
          \<and> family_size mixed_rows m = fam_family_size (mixed_families ! 1)) mixed_rows)"
    unfolding k by code_simp
  have a': "avg_fare (mixed_families ! 1) = None \<and> min_fare (mixed_families ! 1) = None
      \<and> max_fare (mixed_families ! 1) = None"
    using family_groups_missing_fares [OF c(1) f1] by blast
  have ne: "[80, 20 :: rat] \<noteq> []"
    by simp
  have b: "avg_fare (mixed_families ! 0) = Some (exact_mean [80, 20])
      \<and> min_fare (mixed_families ! 0) = Some (Min (set [80, 20]))
      \<and> max_fare (mixed_families ! 0) = Some (Max (set [80, 20]))"
    using family_groups_missing_fares [OF c(2) f0] ne by blast
  have v: "avg_fare (mixed_families ! 0) = Some 50" "min_fare (mixed_families ! 0) = Some 20"
    "max_fare (mixed_families ! 0) = Some 80"
    by (simp_all add: mixed_families_def)
  from c g g1 a a' b v show ?thesis
    by - (intro conjI; (elim conjE)?; assumption)
qed

section \<open>Properties of the last-name counts\<close>

lemma str_split1_no_sep: "sep \<notin> set s \<Longrightarrow> str_split1 sep s = [s]"
  by (simp add: str_split1_def)

lemma str_split1_first:
  assumes "s = pre @ sep # rest" and "sep \<notin> set pre"
  shows "str_split1 sep s = [pre, rest]"
proof -
  have pre: "\<forall>c \<in> set pre. c \<noteq> sep"
    using assms(2) by blast
  have "takeWhile (\<lambda>c. c \<noteq> sep) s = pre"
    using pre by (simp add: assms(1))
  moreover have "dropWhile (\<lambda>c. c \<noteq> sep) s = sep # rest"
    using pre by (simp add: assms(1))
  ultimately show ?thesis
    using assms by (simp add: str_split1_def)
qed

lemma str_strip_decompose:
  "\<exists>ws1 ws2. u = ws1 @ str_strip u @ ws2 \<and> list_all isspace ws1 \<and> list_all isspace ws2"
proof -
  define rest where "rest = dropWhile isspace u"
  have u: "u = takeWhile isspace u @ rest"
    by (simp add: rest_def)
  have "rev rest = takeWhile isspace (rev rest) @ dropWhile isspace (rev rest)"
    by simp
  then have "rev (rev rest) = rev (takeWhile isspace (rev rest) @ dropWhile isspace (rev rest))"
    by (rule arg_cong)
  then have rest: "rest = str_strip u @ rev (takeWhile isspace (rev rest))"
    by (simp only: rev_rev_ident rev_append str_strip_def rest_def)
  have "list_all isspace (takeWhile isspace u)"
    and "list_all isspace (rev (takeWhile isspace (rev rest)))"
    by (auto simp: list_all_iff dest: set_takeWhileD)
  with u rest show ?thesis
    by (metis append.assoc)
qed

lemma str_strip_ends:
  assumes "str_strip u \<noteq> []"
  shows "\<not> isspace (hd (str_strip u)) \<and> \<not> isspace (last (str_strip u))"
proof -
  define rest where "rest = dropWhile isspace u"
  define core where "core = dropWhile isspace (rev rest)"
  have s: "str_strip u = rev core"
    by (simp add: str_strip_def rest_def core_def)
  with assms have ne: "core \<noteq> []"
    by simp
  then have l: "\<not> isspace (hd core)"
    unfolding core_def by (rule hd_dropWhile)
  have "rest = rev core @ rev (takeWhile isspace (rev rest))"
    by (metis core_def rev_append rev_rev_ident takeWhile_dropWhile_id)
  then have "hd rest = hd (rev core)"
    using ne by (metis hd_append2 rev_is_Nil_conv)
  moreover have "rest \<noteq> []"
    using ne by (auto simp: core_def)
  then have "\<not> isspace (hd rest)"
    unfolding rest_def by (rule hd_dropWhile)
  ultimately show ?thesis
    using l ne by (simp add: s last_rev)
qed

lemma last_name_None: "last_name v = None \<longleftrightarrow> v = None"
  by (auto simp: last_name_def str_get0_def str_split1_def split: option.splits)

lemma set_uniques: "set (uniques xs) = set xs"
  by (simp add: uniques_def)

lemma distinct_uniques: "distinct (uniques xs)"
  by (simp add: uniques_def)

lemma set_sort_values_desc: "set (sort_values_desc t) = set t"
  by (simp add: sort_values_desc_def)

lemma keys_sort_values_desc: "mset (map fst (sort_values_desc t)) = mset (map fst t)"
  by (simp only: sort_values_desc_def mset_map mset_sort)

lemma distinct_keys_sort_values_desc:
  "distinct (map fst (sort_values_desc t)) \<longleftrightarrow> distinct (map fst t)"
  using keys_sort_values_desc [of t] by (rule mset_eq_imp_distinct_iff)

lemma sum_sort_values_desc: "sum_list (map snd (sort_values_desc t)) = sum_list (map snd t)"
proof -
  have "mset (map snd (sort_values_desc t)) = mset (map snd t)"
    by (simp only: sort_values_desc_def mset_map mset_sort)
  then show ?thesis
    by (metis sum_mset_sum_list)
qed

lemma map_of_sort_values_desc:
  assumes "distinct (map fst t)"
  shows "map_of (sort_values_desc t) = map_of t"
proof (rule map_of_inject_set [THEN iffD2])
  show "distinct (map fst (sort_values_desc t))"
    using assms by (simp add: distinct_keys_sort_values_desc)
  show "distinct (map fst t)"
    by fact
  show "set (sort_values_desc t) = set t"
    by (rule set_sort_values_desc)
qed

lemma count_names_present:
  "count_list (names_present df) l = length (filter (\<lambda>r. last_name (Name r) = Some l) df)"
  by (induction df) (auto simp: names_present_def map_filter_simps split: option.splits)

lemma length_names_present:
  "length (names_present df) = length (filter (\<lambda>r. Name r \<noteq> None) df)"
proof (induction df)
  case Nil
  show ?case by (simp add: names_present_def map_filter_simps)
next
  case (Cons r df)
  then show ?case
    using last_name_None [of "Name r"]
    by (cases "last_name (Name r)") (auto simp: names_present_def map_filter_simps)
qed

lemma last_name_counts_unfold:
  "last_name_counts df =
     sort_values_desc (sort_values_desc
       (map (\<lambda>v. (v, int (count_list (names_present df) v))) (uniques (names_present df))))"
  by (simp add: last_name_counts_def value_counts_def names_present_def Let_def)

lemma last_names_Inr:
  assumes "last_names df = Inr t"
  shows "t = last_name_counts df"
  using assms by (simp add: last_names_def split: if_splits)

lemma last_names_Inl:
  "last_names df = Inl e \<longleftrightarrow>
     e = AttributeError \<and> df \<noteq> [] \<and> (\<forall>r \<in> set df. Name r = None)"
  by (auto simp: last_names_def list_all_iff)

lemma mixed_rows_names: "last_names mixed_rows = Inr mixed_names"
  by code_simp

lemma sum_counts_uniques: "sum_list (map (\<lambda>v. int (count_list xs v)) (uniques xs)) = int (length xs)"
proof -
  have "sum_list (map (\<lambda>v. int (count_list xs v)) (uniques xs)) =
      (\<Sum>v \<in> set xs. int (count_list xs v))"
    by (simp add: sum_list_distinct_conv_sum_set distinct_uniques set_uniques)
  also have "\<dots> = int (\<Sum>v \<in> set xs. count_list xs v)"
    by simp
  also have "(\<Sum>v \<in> set xs. count_list xs v) = length xs"
    by (rule sum_count_set) simp_all
  finally show ?thesis .
qed

lemma map_of_counts:
  "map_of (map (\<lambda>v. (v, f v)) ys) l = (if l \<in> set ys then Some (f l) else None)"
  by (induction ys) auto

text \<open>
  Claim C7. The last name of a name is the text before its first comma with the
  whitespace at both ends removed, and the whole trimmed name when there is no comma;
  \<^verbatim>\<open>last_names\<close> counts the rows by this last name, and raises only on a table that
  has rows and no name.
\<close>

theorem last_name_extraction:
  "(CHR '','' \<notin> set s \<longrightarrow> last_name (Some s) = Some (str_strip s))
   \<and> (s = pre @ CHR '','' # rest \<and> CHR '','' \<notin> set pre \<longrightarrow>
        last_name (Some s) = Some (str_strip pre))
   \<and> (\<exists>ws1 ws2. u = ws1 @ str_strip u @ ws2 \<and> list_all isspace ws1 \<and> list_all isspace ws2)
   \<and> (str_strip u \<noteq> [] \<longrightarrow> \<not> isspace (hd (str_strip u)) \<and> \<not> isspace (last (str_strip u)))
   \<and> last_name (Some ''O'Brien, Mary'') = Some ''O'Brien''
   \<and> last_name (Some ''Smith, John'') = Some ''Smith''
   \<and> (\<forall>t. last_names df = Inr t \<longrightarrow>
        map_of t l =
          (let n = length (filter (\<lambda>r. last_name (Name r) = Some l) df)
           in if n = 0 then None else Some (int n)))
   \<and> (\<forall>e. last_names df = Inl e \<longleftrightarrow>
        e = AttributeError \<and> df \<noteq> [] \<and> (\<forall>r \<in> set df. Name r = None))"
proof -
  have a: "last_name (Some s) = Some (str_strip s)" if "CHR '','' \<notin> set s"
    using that by (simp add: last_name_def str_split1_no_sep str_get0_def)
  have b: "last_name (Some s) = Some (str_strip pre)"
    if "s = pre @ CHR '','' # rest \<and> CHR '','' \<notin> set pre"
    using that str_split1_first [of s pre "CHR '',''" rest]
    by (simp add: last_name_def str_get0_def)
  have e1: "last_name (Some ''O'Brien, Mary'') = Some ''O'Brien''"
    by code_simp
  have e2: "last_name (Some ''Smith, John'') = Some ''Smith''"
    by code_simp
  let ?xs = "names_present df"
  let ?t = "map (\<lambda>v. (v, int (count_list ?xs v))) (uniques ?xs)"
  have d: "distinct (map fst ?t)"
    by (simp add: comp_def distinct_uniques)
  then have d': "distinct (map fst (sort_values_desc ?t))"
    by (simp only: distinct_keys_sort_values_desc)
  have "map_of (last_name_counts df) l = map_of ?t l"
    by (simp only: last_name_counts_unfold map_of_sort_values_desc [OF d']
        map_of_sort_values_desc [OF d])
  also have "\<dots> = (if l \<in> set ?xs then Some (int (count_list ?xs l)) else None)"
    by (simp only: map_of_counts set_uniques)
  also have "\<dots> = (let n = length (filter (\<lambda>r. last_name (Name r) = Some l) df)
        in if n = 0 then None else Some (int n))"
    by (simp add: count_names_present [symmetric] Let_def count_list_0_iff)
  finally have "map_of (last_name_counts df) l =
       (let n = length (filter (\<lambda>r. last_name (Name r) = Some l) df)
        in if n = 0 then None else Some (int n))" .
  then have c: "\<forall>t. last_names df = Inr t \<longrightarrow>
        map_of t l =
          (let n = length (filter (\<lambda>r. last_name (Name r) = Some l) df)
           in if n = 0 then None else Some (int n))"
    using last_names_Inr by blast
  have f: "\<forall>e. last_names df = Inl e \<longleftrightarrow>
      e = AttributeError \<and> df \<noteq> [] \<and> (\<forall>r \<in> set df. Name r = None)"
    by (simp only: last_names_Inl) blast
  from a b str_strip_decompose [of u] str_strip_ends [of u] e1 e2 c f show ?thesis
    by (intro conjI impI; assumption?) blast+
qed

theorem last_name_extraction_witness:
  "CHR '','' \<notin> set ''Cher'' \<and> last_name (Some ''Cher'') = Some (str_strip ''Cher'')
   \<and> ''  Smith , Mrs. Ann'' = ''  Smith '' @ CHR '','' # '' Mrs. Ann''
   \<and> CHR '','' \<notin> set ''  Smith ''
   \<and> last_name (Some ''  Smith , Mrs. Ann'') = Some (str_strip ''  Smith '')
   \<and> str_strip ''  Smith '' = ''Smith''
   \<and> \<not> isspace (hd (str_strip ''  Smith '')) \<and> \<not> isspace (last (str_strip ''  Smith ''))
   \<and> last_names mixed_rows = Inr mixed_names
   \<and> map_of mixed_names ''Smith'' = Some 2 \<and> map_of mixed_names ''Cher'' = Some 2
   \<and> map_of mixed_names ''Moss'' = Some 1 \<and> map_of mixed_names ''Ann'' = None
   \<and> Name (mixed_rows ! 2) = None
   \<and> last_names [mixed_rows ! 2] = Inl AttributeError"
proof -
  have a: "CHR '','' \<notin> set ''Cher''" "CHR '','' \<notin> set ''  Smith ''"
    "''  Smith , Mrs. Ann'' = ''  Smith '' @ CHR '','' # '' Mrs. Ann''"
    by simp_all
  have b: "str_strip ''  Smith '' = ''Smith''"
    by code_simp
  then have c: "str_strip ''  Smith '' \<noteq> []"
    by simp
  have n: "length (filter (\<lambda>r. last_name (Name r) = Some ''Smith'') mixed_rows) = 2"
    "length (filter (\<lambda>r. last_name (Name r) = Some ''Cher'') mixed_rows) = 2"
    "length (filter (\<lambda>r. last_name (Name r) = Some ''Moss'') mixed_rows) = 1"
    "length (filter (\<lambda>r. last_name (Name r) = Some ''Ann'') mixed_rows) = 0"
    by code_simp+
  have m: "map_of mixed_names l =
      (let n = length (filter (\<lambda>r. last_name (Name r) = Some l) mixed_rows)
       in if n = 0 then None else Some (int n))" for l
    using last_name_extraction [where df = mixed_rows and l = l] mixed_rows_names by blast
  have v: "map_of mixed_names ''Smith'' = Some 2" "map_of mixed_names ''Cher'' = Some 2"
    "map_of mixed_names ''Moss'' = Some 1" "map_of mixed_names ''Ann'' = None"
    by (simp_all only: m n Let_def) simp_all
  have w: "CHR '','' \<notin> set ''Cher'' \<and> last_name (Some ''Cher'') = Some (str_strip ''Cher'')
   \<and> ''  Smith , Mrs. Ann'' = ''  Smith '' @ CHR '','' # '' Mrs. Ann''
   \<and> CHR '','' \<notin> set ''  Smith ''
   \<and> last_name (Some ''  Smith , Mrs. Ann'') = Some (str_strip ''  Smith '')
   \<and> str_strip ''  Smith '' = ''Smith''
   \<and> \<not> isspace (hd (str_strip ''  Smith '')) \<and> \<not> isspace (last (str_strip ''  Smith ''))"
    using last_name_extraction [where s = "''Cher''" and u = "''  Smith ''"]
      last_name_extraction [where s = "''  Smith , Mrs. Ann''" and pre = "''  Smith ''"
        and rest = "'' Mrs. Ann''" and u = "''  Smith ''"]
      a b c
    by blast
  have x: "Name (mixed_rows ! 2) = None"
    by (simp add: mixed_rows_def)
  then have "[mixed_rows ! 2] \<noteq> [] \<and> (\<forall>r \<in> set [mixed_rows ! 2]. Name r = None)"
    by simp
  with last_name_extraction [where df = "[mixed_rows ! 2]"]
  have y: "last_names [mixed_rows ! 2] = Inl AttributeError"
    by blast
  from w mixed_rows_names v x y show ?thesis
    by - (intro conjI; (elim conjE)?; assumption)
qed

text \<open>
  Claim C8, as the specification states it, fails: a row without a name is counted under
  no last name, so on a table of six rows, one of them without a name, the counts add up
  to five.
\<close>

theorem last_names_total_counterexample:
  "last_names mixed_rows = Inr mixed_names \<and> sum_list (map snd mixed_names) = 5
   \<and> length mixed_rows = 6 \<and> Name (mixed_rows ! 2) = None"
  by code_simp

text \<open>
  Claim C8, amended. Whenever \<^verbatim>\<open>last_names\<close> returns, its counts add up to the number
  of rows that have a name, which is the number of all rows when no name is missing.
\<close>

theorem last_names_total:
  assumes "last_names df = Inr t"
  shows "sum_list (map snd t) = int (length (filter (\<lambda>r. Name r \<noteq> None) df))
   \<and> ((\<forall>r \<in> set df. Name r \<noteq> None) \<longrightarrow> sum_list (map snd t) = int (length df))"
proof -
  have "sum_list (map snd t) =
      sum_list (map (\<lambda>v. int (count_list (names_present df) v)) (uniques (names_present df)))"
    by (simp add: last_names_Inr [OF assms] last_name_counts_unfold sum_sort_values_desc comp_def)
  also have "\<dots> = int (length (names_present df))"
    by (rule sum_counts_uniques)
  finally have "sum_list (map snd t) = int (length (filter (\<lambda>r. Name r \<noteq> None) df))"
    by (simp only: length_names_present)
  then show ?thesis
    by simp
qed

theorem last_names_total_witness:
  "last_names demo_rows = Inr [(''Smith'', 1), (''Doe'', 1), (''Roe'', 1)]
   \<and> sum_list (map snd [(''Smith'', 1 :: int), (''Doe'', 1), (''Roe'', 1)]) = int (length demo_rows)
   \<and> length demo_rows = 3
   \<and> last_names mixed_rows = Inr mixed_names
   \<and> sum_list (map snd mixed_names) = int (length (filter (\<lambda>r. Name r \<noteq> None) mixed_rows))"
proof -
  have d: "last_names demo_rows = Inr [(''Smith'', 1), (''Doe'', 1), (''Roe'', 1)]"
    by code_simp
  have "\<forall>r \<in> set demo_rows. Name r \<noteq> None"
    by (simp add: demo_rows_def sample_row_def)
  with last_names_total [OF d]
  have a: "sum_list (map snd [(''Smith'', 1 :: int), (''Doe'', 1), (''Roe'', 1)]) =
      int (length demo_rows)"
    by blast
  have l: "length demo_rows = 3"
    by (simp add: demo_rows_def)
  from last_names_total [OF mixed_rows_names]
  have b: "sum_list (map snd mixed_names) =
      int (length (filter (\<lambda>r. Name r \<noteq> None) mixed_rows))" ..
  from d a l mixed_rows_names b show ?thesis
    by - (intro conjI; (elim conjE)?; assumption)
qed

section \<open>Properties of the age division\<close>

lemma apply_rows_Inr:
  assumes "apply_rows f xs = Inr ys"
  shows "length ys = length xs \<and> (\<forall>p \<in> set (zip xs ys). f (fst p) = Inr (snd p))"
  using assms
proof (induction xs arbitrary: ys)
  case Nil
  then show ?case by simp
next
  case (Cons x xs)
  from Cons.prems obtain b bs where b: "f x = Inr b" and bs: "apply_rows f xs = Inr bs"
    and ys: "ys = b # bs"
    by (auto split: sum.splits)
  from Cons.IH [OF bs] b ys show ?case
    by auto
qed

lemma apply_rows_total:
  assumes "\<forall>x \<in> set xs. \<exists>b. f x = Inr b"
  shows "\<exists>ys. apply_rows f xs = Inr ys"
  using assms by (induction xs) (auto split: sum.splits)

lemma map_of_class_medians:
  "map_of (class_medians df) c =
     (if c \<in> observed Pclass df then Some (median (class_ages df c)) else None)"
  by (simp add: class_medians_def map_of_counts set_sorted_unique)

lemma length_filter_sort: "length (filter P (sort xs)) = length (filter P xs)"
proof -
  have "mset (filter P (sort xs)) = mset (filter P xs)"
    by (simp only: mset_filter mset_sort)
  then show ?thesis
    by (rule mset_eq_length)
qed

lemma sorted_count_below:
  assumes "sorted s" and "i < length s"
  shows "length (filter (\<lambda>x. x < s ! i) s) \<le> i"
proof -
  have "\<not> x < s ! i" if "x \<in> set (drop i s)" for x
  proof -
    from that obtain j where "j < length (drop i s)" and "x = drop i s ! j"
      by (auto simp: in_set_conv_nth)
    then have "x = s ! (i + j)" and "i + j < length s"
      using assms(2) by simp_all
    with assms(1) have "s ! i \<le> x"
      by (simp add: sorted_nth_mono)
    then show ?thesis by simp
  qed
  then have "filter (\<lambda>x. x < s ! i) (drop i s) = []"
    by (simp add: filter_empty_conv)
  moreover have "filter (\<lambda>x. x < s ! i) s =
      filter (\<lambda>x. x < s ! i) (take i s) @ filter (\<lambda>x. x < s ! i) (drop i s)"
    by (simp only: filter_append [symmetric] append_take_drop_id)
  ultimately have "length (filter (\<lambda>x. x < s ! i) s) = length (filter (\<lambda>x. x < s ! i) (take i s))"
    by simp
  also have "\<dots> \<le> length (take i s)"
    by (rule length_filter_le)
  also have "\<dots> \<le> i"
    by simp
  finally show ?thesis .
qed

lemma sorted_count_above:
  assumes "sorted s" and "i < length s"
  shows "length (filter (\<lambda>x. s ! i < x) s) + i < length s"
proof -
  have "\<not> s ! i < x" if "x \<in> set (take (Suc i) s)" for x
  proof -
    from that obtain j where "j < length (take (Suc i) s)" and "x = take (Suc i) s ! j"
      by (auto simp: in_set_conv_nth)
    then have "x = s ! j" and "j \<le> i"
      by simp_all
    with assms have "x \<le> s ! i"
      by (simp add: sorted_nth_mono)
    then show ?thesis by simp
  qed
  then have "filter (\<lambda>x. s ! i < x) (take (Suc i) s) = []"
    by (simp add: filter_empty_conv)
  moreover have "filter (\<lambda>x. s ! i < x) s =
      filter (\<lambda>x. s ! i < x) (take (Suc i) s) @ filter (\<lambda>x. s ! i < x) (drop (Suc i) s)"
    by (simp only: filter_append [symmetric] append_take_drop_id)
  ultimately have "length (filter (\<lambda>x. s ! i < x) s) =
      length (filter (\<lambda>x. s ! i < x) (drop (Suc i) s))"
    by simp
  also have "\<dots> \<le> length (drop (Suc i) s)"
    by (rule length_filter_le)
  finally show ?thesis
    using assms(2) by simp
qed

lemma nth_sort_counts:
  assumes "i < length xs"
  shows "sort xs ! i \<in> set xs
    \<and> length (filter (\<lambda>x. x < sort xs ! i) xs) \<le> i
    \<and> length (filter (\<lambda>x. sort xs ! i < x) xs) + i < length xs"
proof -
  have i: "i < length (sort xs)"
    using assms by simp
  have "sort xs ! i \<in> set (sort xs)"
    using i by (rule nth_mem)
  then have a: "sort xs ! i \<in> set xs"
    by simp
  have b: "length (filter (\<lambda>x. x < sort xs ! i) xs) \<le> i"
    using sorted_count_below [OF sorted_sort i] by (simp only: length_filter_sort)
  have c: "length (filter (\<lambda>x. sort xs ! i < x) xs) + i < length xs"
    using sorted_count_above [OF sorted_sort i] by (simp only: length_filter_sort length_sort)
  from a b c show ?thesis by blast
qed

lemma sort_eq_Nil: "sort xs = [] \<longleftrightarrow> xs = []"
  by (metis length_0_conv length_sort)

lemma median_odd:
  assumes "odd (length xs)"
  shows "\<exists>m. median xs = Some m \<and> m \<in> set xs
    \<and> 2 * length (filter (\<lambda>x. x < m) xs) < length xs
    \<and> 2 * length (filter (\<lambda>x. m < x) xs) < length xs"
proof -
  define i where "i = length xs div 2"
  have n: "length xs = 2 * i + 1"
    unfolding i_def using assms by presburger
  then have i: "i < length xs"
    by simp
  have "length xs \<noteq> 0"
    using n by simp
  then have "median xs = Some (sort xs ! (length xs div 2))"
    using assms by (simp add: median_def Let_def sort_eq_Nil)
  then have m: "median xs = Some (sort xs ! i)"
    by (simp only: i_def)
  note c = nth_sort_counts [OF i]
  from c have c1: "sort xs ! i \<in> set xs" by blast
  from c n have c2: "2 * length (filter (\<lambda>x. x < sort xs ! i) xs) < length xs" by linarith
  from c n have c3: "2 * length (filter (\<lambda>x. sort xs ! i < x) xs) < length xs" by linarith
  from m c1 c2 c3 show ?thesis
    by blast
qed

lemma median_even:
  assumes "even (length xs)" and "xs \<noteq> []"
  shows "\<exists>lo hi. lo \<in> set xs \<and> hi \<in> set xs \<and> lo \<le> hi
    \<and> length (filter (\<lambda>x. x < lo) xs) < length xs div 2
    \<and> length (filter (\<lambda>x. lo < x) xs) \<le> length xs div 2
    \<and> length (filter (\<lambda>x. x < hi) xs) \<le> length xs div 2
    \<and> length (filter (\<lambda>x. hi < x) xs) < length xs div 2
    \<and> median xs = Some (float64_round (float64_round (lo + hi) / 2))"
proof -
  define i where "i = length xs div 2"
  have n: "length xs = 2 * i"
    unfolding i_def using assms(1) by presburger
  have "length xs \<noteq> 0"
    using assms(2) by simp
  with n have i0: "0 < i"
    by simp
  have lo: "i - 1 < length xs" and hi: "i < length xs"
    using n i0 by simp_all
  have le: "sort xs ! (i - 1) \<le> sort xs ! i"
    using hi by (intro sorted_nth_mono) simp_all
  have "median xs = Some (float64_round
      (float64_round (sort xs ! (length xs div 2 - 1) + sort xs ! (length xs div 2)) / 2))"
    using assms \<open>length xs \<noteq> 0\<close> by (simp add: median_def Let_def sort_eq_Nil)
  then have m: "median xs =
      Some (float64_round (float64_round (sort xs ! (i - 1) + sort xs ! i) / 2))"
    by (simp only: i_def)
  note a = nth_sort_counts [OF lo]
  note b = nth_sort_counts [OF hi]
  from a have a1: "sort xs ! (i - 1) \<in> set xs" by blast
  from a i0 have a2: "length (filter (\<lambda>x. x < sort xs ! (i - 1)) xs) < i" by linarith
  from a n i0 have a3: "length (filter (\<lambda>x. sort xs ! (i - 1) < x) xs) \<le> i" by linarith
  from b have b1: "sort xs ! i \<in> set xs" by blast
  from b have b2: "length (filter (\<lambda>x. x < sort xs ! i) xs) \<le> i" by blast
  from b n have b3: "length (filter (\<lambda>x. sort xs ! i < x) xs) < i" by linarith
  from a1 a2 a3 b1 b2 b3 le m show ?thesis
    unfolding i_def [symmetric] by blast
qed

lemma median_Some:
  assumes "xs \<noteq> []"
  shows "\<exists>m. median xs = Some m"
proof (cases "odd (length xs)")
  case True
  from median_odd [OF this] show ?thesis by blast
next
  case False
  then have "even (length xs)" by simp
  from median_even [OF this assms] show ?thesis by blast
qed

lemma class_ages_member:
  assumes "r \<in> set df" and "Pclass r = Some c" and "Age r = Some a"
  shows "a \<in> set (class_ages df c)"
  using assms by (auto simp: class_ages_def set_map_filter_iff)

lemma older_passenger_Inr:
  assumes "older_passenger (class_medians df) r = Inr flag" and "r \<in> set df"
  shows "(Age r = None \<longrightarrow> \<not> flag)
    \<and> (\<forall>a. Age r = Some a \<longrightarrow>
          (\<exists>c m. Pclass r = Some c \<and> class_ages df c \<noteq> []
             \<and> median (class_ages df c) = Some m \<and> (flag \<longleftrightarrow> m < a)))"
proof (cases "Age r")
  case None
  with assms(1) show ?thesis
    by (simp add: older_passenger_def)
next
  case (Some a)
  with assms(1) obtain c where c: "Pclass r = Some c"
    by (auto simp: older_passenger_def split: option.splits)
  from class_ages_member [OF assms(2) c Some] have ne: "class_ages df c \<noteq> []"
    by auto
  have obs: "c \<in> observed Pclass df"
    using assms(2) c by (auto simp: observed_iff)
  from median_Some [OF ne] obtain m where m: "median (class_ages df c) = Some m" ..
  from assms(1) have "flag \<longleftrightarrow> m < a"
    by (simp add: older_passenger_def Some c map_of_class_medians obs m)
  with Some c ne m show ?thesis
    by simp
qed

lemma determine_age_division_Inr:
  assumes "determine_age_division df = Inr out"
  shows "map fst out = df
    \<and> (\<forall>p \<in> set out. older_passenger (class_medians df) (fst p) = Inr (snd p))"
proof -
  from assms obtain flags where f: "apply_rows (older_passenger (class_medians df)) df = Inr flags"
    and out: "out = zip df flags"
    by (auto simp: determine_age_division_def split: sum.splits)
  from apply_rows_Inr [OF f] out show ?thesis
    by simp
qed

lemma determine_age_division_returns:
  assumes "\<forall>r \<in> set df. Age r \<noteq> None \<longrightarrow> Pclass r \<noteq> None"
  shows "\<exists>out. determine_age_division df = Inr out"
proof -
  have "\<exists>b. older_passenger (class_medians df) r = Inr b" if "r \<in> set df" for r
  proof (cases "Age r")
    case None
    then have "older_passenger (class_medians df) r = Inr False"
      by (simp add: older_passenger_def)
    then show ?thesis ..
  next
    case (Some a)
    with assms that obtain c where c: "Pclass r = Some c"
      by auto
    have "c \<in> observed Pclass df"
      using that c by (auto simp: observed_iff)
    with Some c show ?thesis
      by (auto simp: older_passenger_def map_of_class_medians split: option.splits)
  qed
  then have "\<forall>r \<in> set df. \<exists>b. older_passenger (class_medians df) r = Inr b" ..
  from apply_rows_total [OF this]
  obtain flags where "apply_rows (older_passenger (class_medians df)) df = Inr flags" ..
  then show ?thesis
    by (simp add: determine_age_division_def)
qed

lemma division_rows_table: "determine_age_division division_rows = Inr division_table"
  by code_simp

lemma division_rows_summary:
  "visualize_age_division_grouped division_rows = Inr division_summary"
  by code_simp

text \<open>
  Claim C4, as the specification states it, fails. Two passengers of one class have the
  ages \<open>1 + 1 / 2 ^ 52\<close> and \<open>1 + 1 / 2 ^ 51\<close>, neighbouring floats. The median of the
  specification is their exact average, which the second age exceeds; the code's median
  is the float mean, which rounds to the second age, so the flag of the second passenger
  is false.
\<close>

theorem older_passenger_median_counterexample:
  "determine_age_division adjacent_rows =
      Inr [(adjacent_rows ! 0, False), (adjacent_rows ! 1, False)]
   \<and> Pclass (adjacent_rows ! 1) = Some 1 \<and> Age (adjacent_rows ! 1) = Some (1 + 1 / 2 ^ 51)
   \<and> class_ages adjacent_rows 1 = [1 + 1 / 2 ^ 52, 1 + 1 / 2 ^ 51]
   \<and> spec_median (class_ages adjacent_rows 1) = Some (1 + 3 / 2 ^ 53)
   \<and> (1 + 3 / 2 ^ 53 :: rat) < 1 + 1 / 2 ^ 51
   \<and> median (class_ages adjacent_rows 1) = Some (1 + 1 / 2 ^ 51)"
  by code_simp

text \<open>
  Claim C4, amended. In the table \<^verbatim>\<open>determine_age_division\<close> returns, the flag of a row
  with a missing age is false. For a row with an age, the flag is true exactly when the
  age is strictly greater than the median the code computes over the ages present in the
  rows of the same class: for an odd number of ages the age with fewer than half of the
  ages below it and fewer than half above it, for an even number the float mean (the
  rounded sum, halved) of the two middle ages. An age equal to that median gives false.
\<close>

theorem older_passenger_strict:
  assumes "determine_age_division df = Inr out" and "(r, flag) \<in> set out"
    and "ages = List.map_filter Age (filter (\<lambda>p. Pclass p = Pclass r) df)"
  shows "r \<in> set df \<and> map fst out = df
    \<and> (Age r = None \<longrightarrow> \<not> flag)
    \<and> (\<forall>a. Age r = Some a \<longrightarrow> Pclass r \<noteq> None \<and> a \<in> set ages
          \<and> (\<exists>m. (flag \<longleftrightarrow> m < a)
                \<and> (odd (length ages) \<longrightarrow>
                      m \<in> set ages
                      \<and> 2 * length (filter (\<lambda>x. x < m) ages) < length ages
                      \<and> 2 * length (filter (\<lambda>x. m < x) ages) < length ages)
                \<and> (even (length ages) \<longrightarrow>
                      (\<exists>lo hi. lo \<in> set ages \<and> hi \<in> set ages \<and> lo \<le> hi
                         \<and> length (filter (\<lambda>x. x < lo) ages) < length ages div 2
                         \<and> length (filter (\<lambda>x. lo < x) ages) \<le> length ages div 2
                         \<and> length (filter (\<lambda>x. x < hi) ages) \<le> length ages div 2
                         \<and> length (filter (\<lambda>x. hi < x) ages) < length ages div 2
                         \<and> m = float64_round (float64_round (lo + hi) / 2)))))"
proof -
  note d = determine_age_division_Inr [OF assms(1)]
  from d have m: "map fst out = df"
    and all: "\<forall>p \<in> set out. older_passenger (class_medians df) (fst p) = Inr (snd p)"
    by simp_all
  have "fst (r, flag) \<in> set (map fst out)"
    using assms(2) by (simp only: set_map) (rule imageI)
  then have r: "r \<in> set df"
    by (simp add: m)
  from all assms(2) have "older_passenger (class_medians df) (fst (r, flag)) = Inr (snd (r, flag))"
    by (rule bspec)
  then have "older_passenger (class_medians df) r = Inr flag"
    by simp
  note o = older_passenger_Inr [OF this r]
  from o have none: "Age r = None \<longrightarrow> \<not> flag" ..
  have some: "Pclass r \<noteq> None \<and> a \<in> set ages
      \<and> (\<exists>m. (flag \<longleftrightarrow> m < a)
            \<and> (odd (length ages) \<longrightarrow>
                  m \<in> set ages
                  \<and> 2 * length (filter (\<lambda>x. x < m) ages) < length ages
                  \<and> 2 * length (filter (\<lambda>x. m < x) ages) < length ages)
            \<and> (even (length ages) \<longrightarrow>
                  (\<exists>lo hi. lo \<in> set ages \<and> hi \<in> set ages \<and> lo \<le> hi
                     \<and> length (filter (\<lambda>x. x < lo) ages) < length ages div 2
                     \<and> length (filter (\<lambda>x. lo < x) ages) \<le> length ages div 2
                     \<and> length (filter (\<lambda>x. x < hi) ages) \<le> length ages div 2
                     \<and> length (filter (\<lambda>x. hi < x) ages) < length ages div 2
                     \<and> m = float64_round (float64_round (lo + hi) / 2))))"
    if a: "Age r = Some a" for a
  proof -
    from o a obtain c md where c: "Pclass r = Some c" and ne: "class_ages df c \<noteq> []"
      and md: "median (class_ages df c) = Some md" and f: "flag \<longleftrightarrow> md < a"
      by blast
    have ages: "ages = class_ages df c"
      by (simp add: assms(3) class_ages_def c)
    have mem: "a \<in> set ages"
      unfolding ages using r c a by (rule class_ages_member)
    have odd: "md \<in> set ages
        \<and> 2 * length (filter (\<lambda>x. x < md) ages) < length ages
        \<and> 2 * length (filter (\<lambda>x. md < x) ages) < length ages"
      if "odd (length ages)"
      using median_odd [OF that] md by (simp add: ages)
    have even: "\<exists>lo hi. lo \<in> set ages \<and> hi \<in> set ages \<and> lo \<le> hi
        \<and> length (filter (\<lambda>x. x < lo) ages) < length ages div 2
        \<and> length (filter (\<lambda>x. lo < x) ages) \<le> length ages div 2
        \<and> length (filter (\<lambda>x. x < hi) ages) \<le> length ages div 2
        \<and> length (filter (\<lambda>x. hi < x) ages) < length ages div 2
        \<and> md = float64_round (float64_round (lo + hi) / 2)"
      if "even (length ages)"
    proof -
      have "ages \<noteq> []"
        using ne by (simp add: ages)
      from median_even [OF that this] md show ?thesis
        by (simp add: ages)
    qed
    from c mem f odd even show ?thesis
      by blast
  qed
  from r m none some show ?thesis
    by blast
qed

theorem older_passenger_strict_witness:
  "determine_age_division division_rows = Inr division_table
   \<and> map fst division_table = division_rows
   \<and> (division_rows ! 4, True) \<in> set division_table \<and> Age (division_rows ! 4) = Some 50
   \<and> [22, 38, 50] =
       List.map_filter Age (filter (\<lambda>p. Pclass p = Pclass (division_rows ! 4)) division_rows)
   \<and> (\<exists>m. m < 50 \<and> m \<in> set [22, 38, 50]
         \<and> 2 * length (filter (\<lambda>x. x < m) [22, 38, 50 :: rat]) < length [22, 38, 50 :: rat]
         \<and> 2 * length (filter (\<lambda>x. m < x) [22, 38, 50 :: rat]) < length [22, 38, 50 :: rat])
   \<and> (division_rows ! 2, False) \<in> set division_table \<and> Age (division_rows ! 2) = Some 38
   \<and> (\<exists>m. \<not> m < 38 \<and> m \<in> set [22, 38, 50]
         \<and> 2 * length (filter (\<lambda>x. x < m) [22, 38, 50 :: rat]) < length [22, 38, 50 :: rat]
         \<and> 2 * length (filter (\<lambda>x. m < x) [22, 38, 50 :: rat]) < length [22, 38, 50 :: rat])
   \<and> (division_rows ! 6, True) \<in> set division_table \<and> Age (division_rows ! 6) = Some 35
   \<and> [20, 40, 26, 35] =
       List.map_filter Age (filter (\<lambda>p. Pclass p = Pclass (division_rows ! 6)) division_rows)
   \<and> (\<exists>m lo hi. m < 35 \<and> lo \<in> set [20, 40, 26, 35] \<and> hi \<in> set [20, 40, 26, 35]
         \<and> lo \<le> hi
         \<and> length (filter (\<lambda>x. x < lo) [20, 40, 26, 35 :: rat])
             < length [20, 40, 26, 35 :: rat] div 2
         \<and> length (filter (\<lambda>x. lo < x) [20, 40, 26, 35 :: rat])
             \<le> length [20, 40, 26, 35 :: rat] div 2
         \<and> length (filter (\<lambda>x. x < hi) [20, 40, 26, 35 :: rat])
             \<le> length [20, 40, 26, 35 :: rat] div 2
         \<and> length (filter (\<lambda>x. hi < x) [20, 40, 26, 35 :: rat])
             < length [20, 40, 26, 35 :: rat] div 2
         \<and> m = float64_round (float64_round (lo + hi) / 2))
   \<and> median [20, 40, 26, 35] = Some (61 / 2) \<and> median [22, 38, 50] = Some 38
   \<and> (division_rows ! 7, False) \<in> set division_table \<and> Age (division_rows ! 7) = None
   \<and> determine_age_division adjacent_rows =
       Inr [(adjacent_rows ! 0, False), (adjacent_rows ! 1, False)]
   \<and> Age (adjacent_rows ! 1) = Some (1 + 1 / 2 ^ 51)
   \<and> [1 + 1 / 2 ^ 52, 1 + 1 / 2 ^ 51] =
       List.map_filter Age (filter (\<lambda>p. Pclass p = Pclass (adjacent_rows ! 1)) adjacent_rows)
   \<and> (\<exists>m lo hi. \<not> m < 1 + 1 / 2 ^ 51
         \<and> lo \<in> set [1 + 1 / 2 ^ 52, 1 + 1 / 2 ^ 51]
         \<and> hi \<in> set [1 + 1 / 2 ^ 52, 1 + 1 / 2 ^ 51] \<and> lo \<le> hi
         \<and> m = float64_round (float64_round (lo + hi) / 2))
   \<and> float64_round (float64_round ((1 + 1 / 2 ^ 52) + (1 + 1 / 2 ^ 51)) / 2) = 1 + 1 / 2 ^ 51"
proof -
  note h = division_rows_table
  have mem: "(division_rows ! 4, True) \<in> set division_table"
    "(division_rows ! 2, False) \<in> set division_table"
    "(division_rows ! 6, True) \<in> set division_table"
    "(division_rows ! 7, False) \<in> set division_table"
    by (simp_all add: division_table_def division_rows_def)
  have age: "Age (division_rows ! 4) = Some 50" "Age (division_rows ! 2) = Some 38"
    "Age (division_rows ! 6) = Some 35" "Age (division_rows ! 7) = None"
    by (simp_all add: division_rows_def sample_row_def)
  have c1: "[22, 38, 50] =
      List.map_filter Age (filter (\<lambda>p. Pclass p = Pclass (division_rows ! 4)) division_rows)"
    by code_simp
  have c1': "[22, 38, 50] =
      List.map_filter Age (filter (\<lambda>p. Pclass p = Pclass (division_rows ! 2)) division_rows)"
    by code_simp
  have c3: "[20, 40, 26, 35] =
      List.map_filter Age (filter (\<lambda>p. Pclass p = Pclass (division_rows ! 6)) division_rows)"
    by code_simp
  have par: "odd (length [22, 38, 50 :: rat])" "even (length [20, 40, 26, 35 :: rat])"
    by simp_all
  have med: "median [20, 40, 26, 35] = Some (61 / 2)" "median [22, 38, 50] = Some 38"
    by code_simp+
  note t4 = older_passenger_strict [OF h mem(1) c1]
  note t2 = older_passenger_strict [OF h mem(2) c1']
  note t6 = older_passenger_strict [OF h mem(3) c3]
  from t4 have m: "map fst division_table = division_rows"
    by - (elim conjE, assumption)
  from t4 age(1) par(1)
  have e4: "\<exists>m. m < 50 \<and> m \<in> set [22, 38, 50]
      \<and> 2 * length (filter (\<lambda>x. x < m) [22, 38, 50 :: rat]) < length [22, 38, 50 :: rat]
      \<and> 2 * length (filter (\<lambda>x. m < x) [22, 38, 50 :: rat]) < length [22, 38, 50 :: rat]"
    by blast
  from t2 age(2) par(1)
  have e2: "\<exists>m. \<not> m < 38 \<and> m \<in> set [22, 38, 50]
      \<and> 2 * length (filter (\<lambda>x. x < m) [22, 38, 50 :: rat]) < length [22, 38, 50 :: rat]
      \<and> 2 * length (filter (\<lambda>x. m < x) [22, 38, 50 :: rat]) < length [22, 38, 50 :: rat]"
    by blast
  from t6 age(3) par(2)
  have e6: "\<exists>m lo hi. m < 35 \<and> lo \<in> set [20, 40, 26, 35] \<and> hi \<in> set [20, 40, 26, 35]
      \<and> lo \<le> hi
      \<and> length (filter (\<lambda>x. x < lo) [20, 40, 26, 35 :: rat])
          < length [20, 40, 26, 35 :: rat] div 2
      \<and> length (filter (\<lambda>x. lo < x) [20, 40, 26, 35 :: rat])
          \<le> length [20, 40, 26, 35 :: rat] div 2
      \<and> length (filter (\<lambda>x. x < hi) [20, 40, 26, 35 :: rat])
          \<le> length [20, 40, 26, 35 :: rat] div 2
      \<and> length (filter (\<lambda>x. hi < x) [20, 40, 26, 35 :: rat])
          < length [20, 40, 26, 35 :: rat] div 2
      \<and> m = float64_round (float64_round (lo + hi) / 2)"
    by blast
  have ah: "determine_age_division adjacent_rows =
      Inr [(adjacent_rows ! 0, False), (adjacent_rows ! 1, False)]"
    by code_simp
  have am: "(adjacent_rows ! 1, False) \<in> set [(adjacent_rows ! 0, False), (adjacent_rows ! 1, False)]"
    by simp
  have aa: "Age (adjacent_rows ! 1) = Some (1 + 1 / 2 ^ 51)"
    by (simp add: adjacent_rows_def sample_row_def)
  have ac: "[1 + 1 / 2 ^ 52, 1 + 1 / 2 ^ 51] =
      List.map_filter Age (filter (\<lambda>p. Pclass p = Pclass (adjacent_rows ! 1)) adjacent_rows)"
    by code_simp
  have ap: "even (length [1 + 1 / 2 ^ 52, 1 + 1 / 2 ^ 51 :: rat])"
    by simp
  from older_passenger_strict [OF ah am ac] aa ap
  have ae: "\<exists>m lo hi. \<not> m < 1 + 1 / 2 ^ 51
      \<and> lo \<in> set [1 + 1 / 2 ^ 52, 1 + 1 / 2 ^ 51]
      \<and> hi \<in> set [1 + 1 / 2 ^ 52, 1 + 1 / 2 ^ 51] \<and> lo \<le> hi
      \<and> m = float64_round (float64_round (lo + hi) / 2)"
    by blast
  have av: "float64_round (float64_round ((1 + 1 / 2 ^ 52) + (1 + 1 / 2 ^ 51)) / 2) =
      1 + 1 / 2 ^ 51"
    by code_simp
  from h m mem age c1 c3 e4 e2 e6 med ah aa ac ae av show ?thesis
    by - (intro conjI; (elim conjE)?; assumption)
qed

lemma division_cell_agg:
  assumes "visualize_age_division_grouped df = Inr tbl" and "cell \<in> set tbl"
  shows "\<exists>t k. determine_age_division df = Inr t \<and> cell = division_agg t k"
  using assms by (fastforce simp: visualize_age_division_grouped_def split: sum.splits)

lemma map_filter_map: "List.map_filter f (map g xs) = List.map_filter (\<lambda>x. f (g x)) xs"
  by (induction xs) (simp_all add: map_filter_simps split: option.splits)

text \<open>
  Claim C5. In the summary by class and flag the count of a group is the number of its
  rows that have a passenger id and the survivors are the sum of the survived flags of
  its rows (for flags whose magnitudes add up to less than \<open>2 ^ 53\<close>, where the sum of the
  column is exact). The survival rate is the float quotient of the survivors by the count
  where the count is positive, and is missing, not 0, where the count is 0.
\<close>

theorem division_rate_undefined:
  assumes "visualize_age_division_grouped df = Inr tbl" and "cell \<in> set tbl"
  shows "\<exists>t. determine_age_division df = Inr t
    \<and> div_n_passengers cell =
        int (length (filter (\<lambda>p. Pclass (fst p) = Some (div_Pclass cell)
              \<and> snd p = div_older_passenger cell \<and> PassengerId (fst p) \<noteq> None) t))
    \<and> (sum_list (map abs (List.map_filter (\<lambda>p. Survived (fst p))
            (filter (\<lambda>p. Pclass (fst p) = Some (div_Pclass cell)
                \<and> snd p = div_older_passenger cell) t))) < 2 ^ 53 \<longrightarrow>
        div_n_survivors cell =
          sum_list (List.map_filter (\<lambda>p. Survived (fst p))
            (filter (\<lambda>p. Pclass (fst p) = Some (div_Pclass cell)
                \<and> snd p = div_older_passenger cell) t)))
    \<and> (0 < div_n_passengers cell \<longrightarrow>
          div_survival_rate cell =
            Some (float64_round (float64_round (of_int (div_n_survivors cell))
              / float64_round (of_int (div_n_passengers cell)))))
    \<and> (div_n_passengers cell = 0 \<longrightarrow> div_survival_rate cell = None)"
proof -
  from division_cell_agg [OF assms] obtain t k
    where t: "determine_age_division df = Inr t" and cell: "cell = division_agg t k"
    by blast
  define grp where "grp = filter (\<lambda>p. Pclass (fst p) = Some (div_Pclass cell)
      \<and> snd p = div_older_passenger cell) t"
  define b where "b = has_missing Survived (map fst t)"
  have key: "div_Pclass cell = fst k" "div_older_passenger cell = snd k"
    by (simp_all add: cell division_agg_def Let_def)
  have "division_member k = (\<lambda>p. Pclass (fst p) = Some (div_Pclass cell)
      \<and> snd p = div_older_passenger cell)"
    by (rule ext) (simp add: division_member_def key)
  then have grp: "filter (division_member k) t = grp"
    by (simp only: grp_def)
  have n: "div_n_passengers cell = agg_count PassengerId (map fst grp)"
    and s: "div_n_survivors cell = agg_sum b Survived (map fst grp)"
    and rate: "div_survival_rate cell =
       map_option (\<lambda>d. float64_round (float64_round (of_int (agg_sum b Survived (map fst grp)))
           / float64_round (of_int d)))
         (replace0 (agg_count PassengerId (map fst grp)))"
    by (simp_all add: cell division_agg_def Let_def grp b_def)
  have n': "div_n_passengers cell =
      int (length (filter (\<lambda>p. Pclass (fst p) = Some (div_Pclass cell)
            \<and> snd p = div_older_passenger cell \<and> PassengerId (fst p) \<noteq> None) t))"
    by (simp add: n agg_count_def map_filter_map length_map_filter grp_def conj_commute
        conj_left_commute)
  have flags: "List.map_filter Survived (map fst grp) =
      List.map_filter (\<lambda>p. Survived (fst p)) grp"
    by (rule map_filter_map)
  have s': "div_n_survivors cell = sum_list (List.map_filter (\<lambda>p. Survived (fst p)) grp)"
    if "sum_list (map abs (List.map_filter (\<lambda>p. Survived (fst p)) grp)) < 2 ^ 53"
  proof -
    from that have "sum_list (map abs (List.map_filter Survived (map fst grp))) < 2 ^ 53"
      by (simp only: flags)
    then have "agg_sum b Survived (map fst grp) = sum_list (List.map_filter Survived (map fst grp))"
      by (rule agg_sum_small)
    then show ?thesis
      by (simp only: s flags)
  qed
  have n0: "0 \<le> agg_count PassengerId (map fst grp)"
    by (simp add: agg_count_def)
  have r: "(0 < div_n_passengers cell \<longrightarrow>
          div_survival_rate cell =
            Some (float64_round (float64_round (of_int (div_n_survivors cell))
              / float64_round (of_int (div_n_passengers cell)))))
    \<and> (div_n_passengers cell = 0 \<longrightarrow> div_survival_rate cell = None)"
    using n0 by (simp add: n s rate replace0_def)
  from t n' s' r show ?thesis
    unfolding grp_def by blast
qed

theorem division_rate_undefined_witness:
  "visualize_age_division_grouped division_rows = Inr division_summary
   \<and> determine_age_division division_rows = Inr division_table
   \<and> division_summary ! 0 \<in> set division_summary
   \<and> div_n_passengers (division_summary ! 0) = 2 \<and> div_n_survivors (division_summary ! 0) = 0
   \<and> div_survival_rate (division_summary ! 0) =
       Some (float64_round (float64_round (of_int (div_n_survivors (division_summary ! 0)))
         / float64_round (of_int (div_n_passengers (division_summary ! 0)))))
   \<and> div_survival_rate (division_summary ! 0) = Some 0
   \<and> division_summary ! 4 \<in> set division_summary
   \<and> div_n_passengers (division_summary ! 4) = 2 \<and> div_n_survivors (division_summary ! 4) = 1
   \<and> div_survival_rate (division_summary ! 4) =
       Some (float64_round (float64_round (of_int (div_n_survivors (division_summary ! 4)))
         / float64_round (of_int (div_n_passengers (division_summary ! 4)))))
   \<and> div_survival_rate (division_summary ! 4) = Some (1 / 2)
   \<and> List.map_filter (\<lambda>p. Survived (fst p))
         (filter (\<lambda>p. Pclass (fst p) = Some (div_Pclass (division_summary ! 4))
             \<and> snd p = div_older_passenger (division_summary ! 4)) division_table) = [1, 0]
   \<and> div_n_survivors (division_summary ! 4) =
       sum_list (List.map_filter (\<lambda>p. Survived (fst p))
         (filter (\<lambda>p. Pclass (fst p) = Some (div_Pclass (division_summary ! 4))
             \<and> snd p = div_older_passenger (division_summary ! 4)) division_table))
   \<and> division_summary ! 2 \<in> set division_summary
   \<and> div_n_passengers (division_summary ! 2) = 0
   \<and> div_n_survivors (division_summary ! 2) = 1
   \<and> div_survival_rate (division_summary ! 2) = None
   \<and> visualize_age_division_grouped seven_rows = Inr seven_summary
   \<and> div_n_passengers (seven_summary ! 1) = 3 \<and> div_n_survivors (seven_summary ! 1) = 1
   \<and> div_survival_rate (seven_summary ! 1) =
       Some (float64_round (float64_round (of_int (div_n_survivors (seven_summary ! 1)))
         / float64_round (of_int (div_n_passengers (seven_summary ! 1)))))
   \<and> div_survival_rate (seven_summary ! 1) = Some (6004799503160661 / 18014398509481984)"
proof -
  note h = division_rows_summary
  have mem: "division_summary ! 0 \<in> set division_summary"
    "division_summary ! 4 \<in> set division_summary"
    "division_summary ! 2 \<in> set division_summary"
    by (simp_all add: division_summary_def)
  have v: "div_n_passengers (division_summary ! 0) = 2"
    "div_n_survivors (division_summary ! 0) = 0"
    "div_survival_rate (division_summary ! 0) = Some 0"
    "div_n_passengers (division_summary ! 4) = 2"
    "div_n_survivors (division_summary ! 4) = 1"
    "div_survival_rate (division_summary ! 4) = Some (1 / 2)"
    "div_n_passengers (division_summary ! 2) = 0"
    "div_n_survivors (division_summary ! 2) = 1"
    by (simp_all add: division_summary_def)
  have p: "0 < div_n_passengers (division_summary ! 0)"
    "0 < div_n_passengers (division_summary ! 4)"
    by (simp_all add: division_summary_def)
  have f: "List.map_filter (\<lambda>p. Survived (fst p))
         (filter (\<lambda>p. Pclass (fst p) = Some (div_Pclass (division_summary ! 4))
             \<and> snd p = div_older_passenger (division_summary ! 4)) division_table) = [1, 0]"
    by code_simp
  have g: "sum_list (map abs (List.map_filter (\<lambda>p. Survived (fst p))
         (filter (\<lambda>p. Pclass (fst p) = Some (div_Pclass (division_summary ! 4))
             \<and> snd p = div_older_passenger (division_summary ! 4)) division_table))) < 2 ^ 53"
    by (simp only: f) simp
  from division_rate_undefined [OF h mem(1)] p(1)
  have a: "div_survival_rate (division_summary ! 0) =
       Some (float64_round (float64_round (of_int (div_n_survivors (division_summary ! 0)))
         / float64_round (of_int (div_n_passengers (division_summary ! 0)))))"
    by blast
  from division_rate_undefined [OF h mem(2)] p(2)
  have b: "div_survival_rate (division_summary ! 4) =
       Some (float64_round (float64_round (of_int (div_n_survivors (division_summary ! 4)))
         / float64_round (of_int (div_n_passengers (division_summary ! 4)))))"
    by blast
  from division_rate_undefined [OF h mem(2)] division_rows_table g
  have s: "div_n_survivors (division_summary ! 4) =
      sum_list (List.map_filter (\<lambda>p. Survived (fst p))
        (filter (\<lambda>p. Pclass (fst p) = Some (div_Pclass (division_summary ! 4))
            \<and> snd p = div_older_passenger (division_summary ! 4)) division_table))"
    by auto
  from division_rate_undefined [OF h mem(3)] v(7)
  have c: "div_survival_rate (division_summary ! 2) = None"
    by blast
  have sh: "visualize_age_division_grouped seven_rows = Inr seven_summary"
    by code_simp
  have sm: "seven_summary ! 1 \<in> set seven_summary"
    by (simp add: seven_summary_def)
  have sv: "div_n_passengers (seven_summary ! 1) = 3" "div_n_survivors (seven_summary ! 1) = 1"
    "div_survival_rate (seven_summary ! 1) = Some (6004799503160661 / 18014398509481984)"
    by (simp_all add: seven_summary_def)
  have sp: "0 < div_n_passengers (seven_summary ! 1)"
    by (simp add: seven_summary_def)
  from division_rate_undefined [OF sh sm] sp
  have sr: "div_survival_rate (seven_summary ! 1) =
       Some (float64_round (float64_round (of_int (div_n_survivors (seven_summary ! 1)))
         / float64_round (of_int (div_n_passengers (seven_summary ! 1)))))"
    by blast
  from h division_rows_table mem v a b f s c sh sv(1,2) sr sv(3) show ?thesis
    by - (intro conjI; (elim conjE)?; assumption)
qed
end
